theory Spec2Isabelle
  imports Complex_Main "HOL-Library.Word" "HOL-Library.Signed_Division"
begin

unbundle bit_operations_syntax

section \<open>Numbers\<close>

text \<open>
  The program's numbers are JavaScript numbers. They are idealised here as \<^typ>\<open>real\<close>:
  arithmetic is exact, there is no NaN and no infinity. Where the program divides by
  zero or builds an array of infinite length the model says so explicitly (an error
  value) instead of relying on HOL's \<open>x / 0 = 0\<close>. Tile coordinates and array
  indices are integers.

  \<open>v ^ 0\<close> in the source converts \<open>v\<close> to a signed 32 bit integer (truncation towards
  zero, then wrap-around); \<open>a % b\<close> is the remainder whose sign follows the dividend.
\<close>

definition js_trunc :: "real \<Rightarrow> int" where
  "js_trunc r = (if r < 0 then \<lceil>r\<rceil> else \<lfloor>r\<rfloor>)"

definition toInt32 :: "real \<Rightarrow> int" where
  "toInt32 r = sint (word_of_int (js_trunc r) :: 32 word)"

definition js_rem :: "int \<Rightarrow> int \<Rightarrow> int" where
  "js_rem a b = a smod b"

definition MAX_SAFE_INTEGER :: real where
  "MAX_SAFE_INTEGER = 9007199254740991"

section \<open>Collision handler: data model\<close>

text \<open>
  What a call can do instead of returning a value: raise a TypeError (a property of
  \<open>undefined\<close> or \<open>null\<close> is read), raise a RangeError (an array of an invalid length),
  or never return (a loop that does not end).
\<close>

datatype error = TypeError | RangeError | NoReturn

record BBox =
  minX :: real
  maxX :: real
  minY :: real
  maxY :: real

text \<open>
  An entry of \<open>attrs\<close> points into a vertex attribute buffer that is shared with the
  renderer: \<open>buffer\<close> is the address of the buffer in the store of buffers.
\<close>

record Attr =
  start :: nat
  stop :: nat
  buffer :: nat

text \<open>
  \<open>CollisionData\<close> has four fields that every entry carries (\<open>boxes\<close>, \<open>attrs\<close>,
  \<open>priority\<close>, \<open>slope\<close>; an absent slope is \<open>None\<close>) and seven optional ones that only
  the entries made by \<open>insert\<close> carry. The entries of phase 2 are plain
  \<open>CollisionData\<close>; the entries of phase 1 are the extension \<open>CollisionEntry\<close>.
\<close>

record CollisionData =
  boxes :: "BBox list"
  attrs :: "Attr list"
  priority :: real
  slope :: "(real \<times> real) option"

record CollisionEntry = CollisionData +
  cx :: real
  cy :: real
  cz :: real
  offsetX :: real
  offsetY :: real
  halfWidth :: real
  halfHeight :: real

text \<open>
  A \<open>CollisionDataMap\<close> is a JavaScript object used as a dictionary; its keys are
  data keys (\<open>layerId-quadkey\<close>), which are never array indices, so \<open>for ... in\<close>
  visits them in insertion order: an association list.
\<close>

type_synonym CollisionDataMap = "(string \<times> CollisionEntry list) list"

record LayerTileCollision =
  tileKey :: string
  data :: "CollisionEntry list"
  dataKey :: string
  existing :: CollisionDataMap

record Tile =
  quadkey :: string
  tile_x :: int
  tile_y :: int
  tile_z :: int

record Layer =
  layer_id :: nat
  layer_tileSize :: real

text \<open>
  The handler. \<open>timer\<close> is the handle of the pending timeout, \<open>None\<close> for \<open>null\<close>.
\<close>

record CollisionHandler =
  tiles :: "string \<rightharpoonup> CollisionDataMap"
  curLayerTileCollision :: "LayerTileCollision option"
  updated :: bool
  timer :: "nat option"

section \<open>Collision handler: phase 1\<close>

fun string_of_digit :: "nat \<Rightarrow> char" where
  "string_of_digit n = ''0123456789'' ! n"

fun string_of_nat :: "nat \<Rightarrow> string" where
  "string_of_nat n =
     (if n < 10 then [string_of_digit n]
      else string_of_nat (n div 10) @ [string_of_digit (n mod 10)])"

declare string_of_nat.simps [simp del]

definition getTileCacheKey :: "string \<Rightarrow> Layer \<Rightarrow> string" where
  "getTileCacheKey qk layer = (if layer_tileSize layer = 256 then butlast qk else qk)"

definition getDataKey :: "string \<Rightarrow> Layer \<Rightarrow> string" where
  "getDataKey qk layer = string_of_nat (layer_id layer) @ ''-'' @ qk"

definition intersects ::
  "'a CollisionData_scheme \<Rightarrow> 'b CollisionData_scheme list \<Rightarrow> bool" where
  "intersects box1 ds =
     list_ex (\<lambda>d.
       list_ex (\<lambda>bbox2.
         list_ex (\<lambda>bbox1.
           minX bbox1 \<le> maxX bbox2 \<and> minX bbox2 \<le> maxX bbox1 \<and>
           minY bbox1 \<le> maxY bbox2 \<and> minY bbox2 \<le> maxY bbox1) (boxes box1))
         (boxes d)) ds"

text \<open>
  \<open>updateBBoxes\<close> writes \<open>result[i]\<close> for \<open>i = 0 .. boxes\<close>. Both callers pass an array
  of length at most \<open>boxes + 1\<close>, so the array afterwards is exactly the list of the
  boxes written.
\<close>

definition updateBBoxes ::
  "real \<Rightarrow> real \<Rightarrow> real \<times> real \<Rightarrow> real \<Rightarrow> real \<Rightarrow> int \<Rightarrow> BBox list" where
  "updateBBoxes cx0 cy0 slope0 w h n =
     map (\<lambda>i. let relPos = (real_of_int i / real_of_int n - 0.5) * 0.75;
                   x = fst slope0 * relPos + cx0;
                   y = snd slope0 * relPos + cy0
               in \<lparr>minX = x - w, maxX = x + w, minY = y - h, maxY = y + h\<rparr>) [0..n]"

text \<open>The neighbours: the entries of the eight adjacent tiles, in the order of the loops.\<close>

definition neighbourOffsets :: "(int \<times> int) list" where
  "neighbourOffsets =
     filter (\<lambda>(ty, tx). tx \<noteq> 0 \<or> ty \<noteq> 0) (List.product [-1, 0, 1] [-1, 0, 1])"

definition clearTile :: "string \<Rightarrow> Layer \<Rightarrow> CollisionHandler \<Rightarrow> CollisionHandler" where
  "clearTile qk layer h =
     (let collisionTileKey = getTileCacheKey qk layer;
          dk = getDataKey qk layer
      in if map_option dataKey (curLayerTileCollision h) = Some dk then h
         else (case tiles h collisionTileKey of
                 None \<Rightarrow> h
               | Some collisionTile \<Rightarrow>
                   (let collisionTile' = filter (\<lambda>(k, v). k \<noteq> dk) collisionTile
                    in if collisionTile' \<noteq> []
                       then h\<lparr>tiles := (tiles h)(collisionTileKey \<mapsto> collisionTile')\<rparr>
                       else h\<lparr>tiles := (tiles h)(collisionTileKey := None)\<rparr>)))"

text \<open>
  Assigning to a key of a dictionary replaces the value in place, or adds the key at the
  end. \<open>{neighbours: neighbours, ...tile}\<close> is the key \<open>neighbours\<close> followed by the
  assignments of the tile's keys.
\<close>

definition setKey :: "string \<Rightarrow> CollisionEntry list \<Rightarrow> CollisionDataMap \<Rightarrow> CollisionDataMap" where
  "setKey k v m =
     (if k \<in> set (map fst m) then map (\<lambda>(k', v'). (k', if k' = k then v else v')) m
      else m @ [(k, v)])"

definition spread :: "CollisionDataMap \<Rightarrow> CollisionDataMap \<Rightarrow> CollisionDataMap" where
  "spread acc kvs = foldl (\<lambda>m (k, v). setKey k v m) acc kvs"

text \<open>
  \<open>tileXYToQuadKey\<close> belongs to another package; it is a parameter of \<open>initTile\<close>.
\<close>

definition initTile ::
  "(int \<Rightarrow> int \<Rightarrow> int \<Rightarrow> string) \<Rightarrow> Tile \<Rightarrow> Layer \<Rightarrow> CollisionHandler \<Rightarrow> CollisionHandler" where
  "initTile tileXYToQuadKey tile layer h0 =
     (let h = clearTile (quadkey tile) layer h0;
          (x, y, z) = (if layer_tileSize layer = 256
                       then (toInt32 (real_of_int (tile_x tile) * 0.5),
                             toInt32 (real_of_int (tile_y tile) * 0.5), tile_z tile - 1)
                       else (tile_x tile, tile_y tile, tile_z tile));
          neighbours = concat (map (\<lambda>(ty, tx).
                          (case tiles h (tileXYToQuadKey z (y + ty) (x + tx)) of
                             None \<Rightarrow> []
                           | Some collisionData \<Rightarrow> concat (map snd collisionData)))
                        neighbourOffsets);
          tk = getTileCacheKey (quadkey tile) layer
      in h\<lparr>curLayerTileCollision := Some
             \<lparr>tileKey = tk, data = [], dataKey = getDataKey (quadkey tile) layer,
              existing = spread [(''neighbours'', neighbours)]
                           (case tiles h tk of None \<Rightarrow> [] | Some m \<Rightarrow> m)\<rparr>,
           updated := False\<rparr>)"

text \<open>
  \<open>insert\<close>, in three steps. First the alignment to the grid of 512 pixel tiles: the
  anchor, then the tile size, the tile's column and row, and its zoom level.
\<close>

definition alignTo512 ::
  "real \<Rightarrow> real \<Rightarrow> Tile \<Rightarrow> real \<Rightarrow> real \<times> real \<times> real \<times> int \<times> int \<times> int" where
  "alignTo512 cx0 cy0 tile tileSize0 =
     (if tileSize0 = 256
      then (cx0 + real_of_int (js_rem (tile_x tile) 2) * tileSize0,
            cy0 + real_of_int (js_rem (tile_y tile) 2) * tileSize0,
            tileSize0 * 2,
            toInt32 (real_of_int (tile_x tile) * 0.5),
            toInt32 (real_of_int (tile_y tile) * 0.5),
            tile_z tile - 1)
      else (cx0, cy0, tileSize0, tile_x tile, tile_y tile, tile_z tile))"

text \<open>
  Then the boxes, from the aligned anchor \<open>(cx, cy)\<close>, the tile's origin
  \<open>(tileX, tileY)\<close> in pixels and the half sizes before padding. The result also
  carries the half sizes as the entry stores them. \<open>new Array(n)\<close> raises a RangeError
  when \<open>n\<close> is infinite (the smaller half size is 0 after padding) or \<open>2^32\<close> and more.
\<close>

definition boxBuffer :: real where
  "boxBuffer = 4"

definition makeBoxes ::
  "real \<Rightarrow> real \<Rightarrow> real \<Rightarrow> real \<Rightarrow> real \<Rightarrow> real \<Rightarrow> (real \<times> real) option
     \<Rightarrow> error + (BBox list \<times> real \<times> real)" where
  "makeBoxes cx1 cy1 tileX tileY halfWidth0 halfHeight0 slope0 =
     (let hw = halfWidth0 + boxBuffer;
          hh = halfHeight0 + boxBuffer;
          mn = min hw hh;
          mx = max hw hh;
          aspectRatio = \<lfloor>mx / mn\<rfloor>
      in case slope0 of
           None \<Rightarrow> Inr ([\<lparr>minX = tileX + cx1 - hw, maxX = tileX + cx1 + hw,
                          minY = tileY + cy1 - hh, maxY = tileY + cy1 + hh\<rparr>], hw, hh)
         | Some s \<Rightarrow>
             if mn = 0 \<and> 0 < mx then Inl RangeError
             else if real_of_int aspectRatio > 1.5
             then (let n = \<lfloor>real_of_int aspectRatio * 0.7\<rfloor>
                   in if n \<ge> 2 ^ 32 then Inl RangeError
                      else Inr (updateBBoxes (cx1 + tileX) (cy1 + tileY) s mn mn n, mn, mn))
             else Inr ([\<lparr>minX = tileX + cx1 - hw, maxX = tileX + cx1 + hw,
                          minY = tileY + cy1 - hh, maxY = tileY + cy1 + hh\<rparr>], hw, hh))"

text \<open>
  \<open>insert\<close> itself: the result is \<open>None\<close> for \<open>false\<close> and the new entry otherwise; the
  handler is returned with the entry appended to the batch. Reading the batch when
  none is open raises a TypeError. The entry is created with no \<open>attrs\<close>; its caller
  adds them afterwards.
\<close>

definition insert_c ::
  "real \<Rightarrow> real \<Rightarrow> real \<Rightarrow> real \<Rightarrow> real \<Rightarrow> real \<Rightarrow> real \<Rightarrow> Tile \<Rightarrow> real \<Rightarrow> real option
     \<Rightarrow> (real \<times> real) option \<Rightarrow> CollisionHandler
     \<Rightarrow> error + (CollisionEntry option \<times> CollisionHandler)" where
  "insert_c cx0 cy0 cz0 offsetX0 offsetY0 halfWidth0 halfHeight0 tile tileSize0 priority0 slope0 h =
     (case alignTo512 cx0 cy0 tile tileSize0 of (cx1, cy1, tileSize1, tileX0, tileY0, tileZ) \<Rightarrow>
        (let tileX = real_of_int tileX0 * tileSize1 + offsetX0;
             tileY = real_of_int tileY0 * tileSize1 + offsetY0
         in (case makeBoxes cx1 cy1 tileX tileY halfWidth0 halfHeight0 slope0 of
               Inl e \<Rightarrow> Inl e
             | Inr (bs, hw, hh) \<Rightarrow>
                 (let collisionData =
                        \<lparr>boxes = bs, attrs = [],
                         priority = (case priority0 of None \<Rightarrow> MAX_SAFE_INTEGER | Some p \<Rightarrow> p),
                         slope = slope0,
                         cx = cx1, cy = cy1, cz = cz0, offsetX = offsetX0, offsetY = offsetY0,
                         halfWidth = hw, halfHeight = hh\<rparr>
                  in (case curLayerTileCollision h of
                        None \<Rightarrow> Inl TypeError
                      | Some cur \<Rightarrow>
                          (if intersects collisionData (data cur) then Inr (None, h)
                           else if list_ex (\<lambda>(name, ds). intersects collisionData ds) (existing cur)
                           then Inr (None, h)
                           else Inr (Some collisionData,
                                     h\<lparr>updated := True,
                                       curLayerTileCollision :=
                                         Some (cur\<lparr>data := data cur @ [collisionData]\<rparr>)\<rparr>)))))))"

text \<open>
  \<open>completeTile\<close> stores the batch in the cache. The synchronous update of the tile's
  screen projection that may follow belongs to phase 2 and does not touch the cache.
\<close>

definition completeTile :: "CollisionHandler \<Rightarrow> error + (bool \<times> CollisionHandler)" where
  "completeTile h =
     (case curLayerTileCollision h of
        None \<Rightarrow> Inl TypeError
      | Some cur \<Rightarrow>
          let tileCollisionData = (case tiles h (tileKey cur) of None \<Rightarrow> [] | Some m \<Rightarrow> m)
          in Inr (updated h,
                  h\<lparr>tiles := (tiles h)(tileKey cur \<mapsto> setKey (dataKey cur) (data cur) tileCollisionData),
                    curLayerTileCollision := None\<rparr>))"

section \<open>Collision handler: phase 2\<close>

text \<open>
  A viewport tile, and a vertex attribute buffer: its typed array of integers, the
  number of array elements of one vertex, and the flag that asks for an upload. The
  buffers live in a store, addressed by the \<open>buffer\<close> field of an \<open>Attr\<close>.
\<close>

record ViewportTile =
  vt_quadkey :: string
  vt_x :: real
  vt_y :: real
  vt_scale :: real

record Attribute =
  buf_data :: "int list"
  buf_size :: nat
  dirty :: bool

type_synonym buffers = "nat \<Rightarrow> Attribute"

text \<open>
  The projection of one cached entry to the screen. \<open>project\<close> is the display's
  projection of a point, a parameter here; \<open>displayScale\<close> is the display's scale (a
  division by it is exact here, and by zero it is HOL's). An entry with more than one
  box is map aligned and reads its slope: a TypeError when the slope is absent.
\<close>

definition projectEntry ::
  "(real \<Rightarrow> real \<Rightarrow> real \<times> real) \<Rightarrow> real \<Rightarrow> real \<Rightarrow> real \<Rightarrow> real \<Rightarrow> CollisionEntry
     \<Rightarrow> error + CollisionData" where
  "projectEntry project tileX tileY tileScale displayScale cData =
     (let offX = offsetX cData / displayScale;
          offY = offsetY cData / displayScale;
          boxCnt = length (boxes cData);
          screenX = tileX + cx cData * tileScale;
          screenY = tileY + cy cData * tileScale
      in if boxCnt > 1
         then (case slope cData of
                 None \<Rightarrow> Inl TypeError
               | Some sl \<Rightarrow>
                   (let (prjX, prjY) = project (screenX + offX) (screenY + offY);
                        prjScreen2 = project (screenX + offX + fst sl) (screenY + offY + snd sl);
                        sl' = ((fst prjScreen2 - prjX) / displayScale,
                               (snd prjScreen2 - prjY) / displayScale)
                    in Inr \<lparr>boxes = updateBBoxes prjX prjY sl' (halfWidth cData) (halfHeight cData)
                                       (int boxCnt - 1),
                            attrs = attrs cData, priority = priority cData, slope = Some sl'\<rparr>))
         else (let (prjX, prjY) = project screenX screenY
               in Inr \<lparr>boxes = [\<lparr>minX = prjX - halfWidth cData + offX,
                                   maxX = prjX + halfWidth cData + offX,
                                   minY = prjY - halfHeight cData + offY,
                                   maxY = prjY + halfHeight cData + offY\<rparr>],
                       attrs = attrs cData, priority = priority cData, slope = slope cData\<rparr>))"

text \<open>
  \<open>updateTileCollisionData\<close> appends the projections of all entries of a tile, segment
  by segment, to \<open>collisionData\<close>.
\<close>

fun projectEntries ::
  "(real \<Rightarrow> real \<Rightarrow> real \<times> real) \<Rightarrow> real \<Rightarrow> real \<Rightarrow> real \<Rightarrow> real \<Rightarrow> CollisionEntry list
     \<Rightarrow> CollisionData list \<Rightarrow> error + CollisionData list" where
  "projectEntries project tileX tileY tileScale displayScale [] collisionData = Inr collisionData"
| "projectEntries project tileX tileY tileScale displayScale (cData # rest) collisionData =
     (case projectEntry project tileX tileY tileScale displayScale cData of
        Inl e \<Rightarrow> Inl e
      | Inr c \<Rightarrow> projectEntries project tileX tileY tileScale displayScale rest (collisionData @ [c]))"

definition updateTileCollisionData ::
  "(real \<Rightarrow> real \<Rightarrow> real \<times> real) \<Rightarrow> real \<Rightarrow> real \<Rightarrow> real \<Rightarrow> CollisionDataMap \<Rightarrow> real
     \<Rightarrow> CollisionData list \<Rightarrow> error + CollisionData list" where
  "updateTileCollisionData project tileX tileY tileScale tileCollisionData displayScale collisionData =
     projectEntries project tileX tileY tileScale displayScale
       (concat (map snd tileCollisionData)) collisionData"

text \<open>The first loop of \<open>updateTiles\<close>: the entries of all viewport tiles that are cached.\<close>

fun gatherTiles ::
  "(real \<Rightarrow> real \<Rightarrow> real \<times> real) \<Rightarrow> CollisionHandler \<Rightarrow> real \<Rightarrow> ViewportTile list
     \<Rightarrow> CollisionData list \<Rightarrow> error + CollisionData list" where
  "gatherTiles project h displayScale [] collisionData = Inr collisionData"
| "gatherTiles project h displayScale (screentile # rest) collisionData =
     (case tiles h (vt_quadkey screentile) of
        None \<Rightarrow> gatherTiles project h displayScale rest collisionData
      | Some tileCollisionData \<Rightarrow>
          (case updateTileCollisionData project (vt_x screentile) (vt_y screentile)
                  (vt_scale screentile) tileCollisionData displayScale collisionData of
             Inl e \<Rightarrow> Inl e
           | Inr collisionData' \<Rightarrow> gatherTiles project h displayScale rest collisionData'))"

text \<open>
  The loop that toggles the lowest bit of every vertex of a range. A write beyond the
  end of a typed array is ignored. With a vertex size of 0 the loop never ends.
\<close>

function toggleRange :: "nat \<Rightarrow> nat \<Rightarrow> nat \<Rightarrow> int list \<Rightarrow> int list option" where
  "toggleRange k stp sz d =
     (if k < stp
      then (if sz = 0 then None
            else toggleRange (k + sz) stp sz (if k < length d then d[k := (d ! k) XOR 1] else d))
      else Some d)"
  by pat_completeness auto
termination
  by (relation "measure (\<lambda>(k, stp, sz, d). stp - k)") auto

declare toggleRange.simps [simp del]

text \<open>
  The body of the loop over \<open>bbox.attrs\<close>, on the store of buffers and the flag
  \<open>updated\<close>. Reading beyond the end of a typed array gives \<open>undefined\<close>, whose lowest
  bit is 0.
\<close>

definition toggleAttr ::
  "bool \<Rightarrow> Attr \<Rightarrow> buffers \<times> bool \<Rightarrow> error + (buffers \<times> bool)" where
  "toggleAttr its a s =
     (case s of (bufs, upd) \<Rightarrow>
        (let b = bufs (buffer a);
             visible = (start a < length (buf_data b) \<and> (buf_data b ! start a) AND 1 = 1)
         in if its = visible
            then (case toggleRange (start a) (stop a) (buf_size b) (buf_data b) of
                    None \<Rightarrow> Inl NoReturn
                  | Some d \<Rightarrow> Inr (bufs(buffer a := b\<lparr>buf_data := d, dirty := True\<rparr>), True))
            else Inr (bufs, upd)))"

fun toggleAttrs ::
  "bool \<Rightarrow> Attr list \<Rightarrow> buffers \<times> bool \<Rightarrow> error + (buffers \<times> bool)" where
  "toggleAttrs its [] s = Inr s"
| "toggleAttrs its (a # as) s =
     (case toggleAttr its a s of Inl e \<Rightarrow> Inl e | Inr s' \<Rightarrow> toggleAttrs its as s')"

text \<open>
  The greedy sweep over the sorted entries, with the two lists of visible items.
  \<open>hides\<close> is the value of the variable \<open>intersects\<close> for one entry.
\<close>

definition hides :: "CollisionData list \<Rightarrow> CollisionData list \<Rightarrow> CollisionData \<Rightarrow> bool" where
  "hides visibleItemsMapAligned visibleItemsViewportAligned bbox =
     (let its = intersects bbox visibleItemsViewportAligned
      in case slope bbox of
           Some sl \<Rightarrow> its
         | None \<Rightarrow> its \<or> intersects bbox visibleItemsMapAligned)"

fun sweep ::
  "CollisionData list \<Rightarrow> CollisionData list \<Rightarrow> CollisionData list \<Rightarrow> buffers \<times> bool
     \<Rightarrow> error + (buffers \<times> bool)" where
  "sweep [] visibleItemsMapAligned visibleItemsViewportAligned s = Inr s"
| "sweep (bbox # rest) visibleItemsMapAligned visibleItemsViewportAligned s =
     (let its = hides visibleItemsMapAligned visibleItemsViewportAligned bbox;
          vM = (if \<not> its \<and> slope bbox \<noteq> None then visibleItemsMapAligned @ [bbox]
                else visibleItemsMapAligned);
          vV = (if \<not> its \<and> slope bbox = None then visibleItemsViewportAligned @ [bbox]
                else visibleItemsViewportAligned)
      in case toggleAttrs its (attrs bbox) s of
           Inl e \<Rightarrow> Inl e
         | Inr s' \<Rightarrow> sweep rest vM vV s')"

text \<open>
  \<open>updateTiles\<close>: gather, sort by priority (the sort of an array is stable), sweep.
  The result is the flag \<open>updated\<close> and the store of buffers.
\<close>

definition updateTiles ::
  "(real \<Rightarrow> real \<Rightarrow> real \<times> real) \<Rightarrow> ViewportTile list \<Rightarrow> real \<Rightarrow> CollisionHandler \<Rightarrow> buffers
     \<Rightarrow> error + (bool \<times> buffers)" where
  "updateTiles project vtiles displayScale h bufs =
     (case gatherTiles project h displayScale vtiles [] of
        Inl e \<Rightarrow> Inl e
      | Inr collisionData \<Rightarrow>
          (case sweep (sort_key priority collisionData) [] [] (bufs, False) of
             Inl e \<Rightarrow> Inl e
           | Inr (bufs', upd) \<Rightarrow> Inr (upd, bufs')))"

section \<open>Collision handler: the scheduling of phase 2\<close>

text \<open>
  \<open>update\<close> uses the timers of the host. They are modelled by a clock in milliseconds,
  the queue of pending timeouts (handle and due time), the next handle, and, to
  observe the outcome, the list of the times at which the scheduled pass ran.
  \<open>setTimeout\<close> queues a timeout that is due after the delay.
\<close>

definition UPDATE_DELAY_MS :: nat where
  "UPDATE_DELAY_MS = 150"

record Timers =
  clock :: nat
  queue :: "(nat \<times> nat) list"
  nextHandle :: nat
  ran :: "nat list"

definition setTimeout :: "nat \<Rightarrow> Timers \<Rightarrow> nat \<times> Timers" where
  "setTimeout delay w =
     (nextHandle w,
      w\<lparr>queue := queue w @ [(nextHandle w, clock w + delay)], nextHandle := nextHandle w + 1\<rparr>)"

text \<open>
  \<open>update\<close> itself: a timeout is set only when \<open>timer\<close> is \<open>null\<close>. The callback of the
  timeout runs the pass and sets \<open>timer\<close> to \<open>null\<close>; the pass is taken to return, and
  what it does to the buffers (\<open>updateTiles\<close>) is left out here.
\<close>

definition update :: "CollisionHandler \<times> Timers \<Rightarrow> CollisionHandler \<times> Timers" where
  "update s =
     (case s of (h, w) \<Rightarrow>
        if timer h = None
        then (case setTimeout UPDATE_DELAY_MS w of (tid, w') \<Rightarrow> (h\<lparr>timer := Some tid\<rparr>, w'))
        else (h, w))"

text \<open>
  The host runs the callbacks of the timeouts that are due, when the clock reaches
  their time: \<open>fire\<close>. \<open>tick\<close> is one millisecond, \<open>advance n\<close> are \<open>n\<close> of them.
\<close>

definition fire :: "CollisionHandler \<times> Timers \<Rightarrow> CollisionHandler \<times> Timers" where
  "fire s =
     (case s of (h, w) \<Rightarrow>
        (let due = filter (\<lambda>(tid, d). d \<le> clock w) (queue w)
         in if due = [] then (h, w)
            else (h\<lparr>timer := None\<rparr>,
                  w\<lparr>queue := filter (\<lambda>(tid, d). \<not> d \<le> clock w) (queue w),
                    ran := ran w @ map (\<lambda>x. clock w) due\<rparr>)))"

definition tick :: "CollisionHandler \<times> Timers \<Rightarrow> CollisionHandler \<times> Timers" where
  "tick s = (case s of (h, w) \<Rightarrow> fire (h, w\<lparr>clock := clock w + 1\<rparr>))"

fun advance :: "nat \<Rightarrow> CollisionHandler \<times> Timers \<Rightarrow> CollisionHandler \<times> Timers" where
  "advance 0 s = s"
| "advance (Suc n) s = advance n (tick s)"

text \<open>What happens to a handler over time: calls of \<open>update\<close>, and time passing.\<close>

datatype event = Update | Wait nat

fun run :: "event list \<Rightarrow> CollisionHandler \<times> Timers \<Rightarrow> CollisionHandler \<times> Timers" where
  "run [] s = s"
| "run (Update # es) s = run es (update s)"
| "run (Wait n # es) s = run es (advance n s)"

section \<open>Vector tiles: the decoding of a geometry\<close>

text \<open>
  \<open>loadGeometry\<close> reads the geometry field of a feature with the reader \<open>pbf\<close> of the
  protocol buffer library. The reader is modelled by the integers (varints) it will
  return: \<open>inside\<close> are those that start before the end of the field, \<open>after\<close> those that
  follow in the buffer. So \<open>pbf.pos < end\<close> holds exactly while \<open>inside\<close> is not empty,
  and a read at the end of the field goes on into what follows it. Reading at the end
  of the buffer raises an error in the library.

  The errors of the decoding: the \<open>Error\<close> for an unknown command, the TypeError of
  \<open>line.push\<close> when \<open>line\<close> is undefined, the TypeError of \<open>line[0].slice\<close> when the line
  is empty, and the library's error.
\<close>

datatype decode_error = UnknownCommand int | NoLine | NoPoint | EndOfBuffer

record Pbf =
  inside :: "nat list"
  after :: "nat list"

definition readVarint :: "Pbf \<Rightarrow> decode_error + (nat \<times> Pbf)" where
  "readVarint pbf =
     (case inside pbf of
        v # vs \<Rightarrow> Inr (v, pbf\<lparr>inside := vs\<rparr>)
      | [] \<Rightarrow> (case after pbf of
                 v # vs \<Rightarrow> Inr (v, pbf\<lparr>after := vs\<rparr>)
               | [] \<Rightarrow> Inl EndOfBuffer))"

text \<open>A signed integer is zigzag encoded: odd values are the negative ones.\<close>

definition readSVarint :: "Pbf \<Rightarrow> decode_error + (int \<times> Pbf)" where
  "readSVarint pbf =
     (case readVarint pbf of
        Inl e \<Rightarrow> Inl e
      | Inr (num, pbf') \<Rightarrow>
          Inr (if num mod 2 = 1 then - ((int num + 1) div 2) else int num div 2, pbf'))"

text \<open>The variables of the loop.\<close>

record GeomState =
  pbf :: Pbf
  cmd :: int
  len :: int
  x_pos :: int
  y_pos :: int
  lines :: "(int \<times> int) list list"
  line :: "(int \<times> int) list option"

text \<open>
  One iteration of the loop, in two parts. When the repeat count has run out the next
  command integer is read: its lowest three bits are the command, the rest is the
  count (\<open>&\<close> and \<open>>>\<close> work on the signed 32 bit value).
\<close>

definition readCommand :: "GeomState \<Rightarrow> decode_error + GeomState" where
  "readCommand s =
     (if len s \<le> 0
      then (case readVarint (pbf s) of
              Inl e \<Rightarrow> Inl e
            | Inr (cmdLen, pbf') \<Rightarrow>
                Inr (s\<lparr>pbf := pbf', cmd := toInt32 (real cmdLen) AND 7,
                        len := drop_bit 3 (toInt32 (real cmdLen))\<rparr>))
      else Inr s)"

text \<open>Then the command is carried out once.\<close>

definition runCommand :: "GeomState \<Rightarrow> decode_error + GeomState" where
  "runCommand s =
     (if cmd s = 1 \<or> cmd s = 2
      then (case readSVarint (pbf s) of
              Inl e \<Rightarrow> Inl e
            | Inr (dx, pbf1) \<Rightarrow>
                (case readSVarint pbf1 of
                   Inl e \<Rightarrow> Inl e
                 | Inr (dy, pbf2) \<Rightarrow>
                     (let x = x_pos s + dx; y = y_pos s + dy;
                          s1 = s\<lparr>pbf := pbf2, x_pos := x, y_pos := y\<rparr>;
                          s2 = (if cmd s = 1
                                then s1\<lparr>lines := (case line s of None \<Rightarrow> lines s
                                                  | Some l \<Rightarrow> lines s @ [l]),
                                        line := Some []\<rparr>
                                else s1)
                      in case line s2 of
                           None \<Rightarrow> Inl NoLine
                         | Some l \<Rightarrow> Inr (s2\<lparr>line := Some (l @ [(x, y)])\<rparr>))))
      else if cmd s = 7
      then (case line s of
              None \<Rightarrow> Inr s
            | Some [] \<Rightarrow> Inl NoPoint
            | Some (p # ps) \<Rightarrow> Inr (s\<lparr>line := Some ((p # ps) @ [p])\<rparr>))
      else Inl (UnknownCommand (cmd s)))"

definition iteration :: "GeomState \<Rightarrow> decode_error + GeomState" where
  "iteration s =
     (case readCommand s of
        Inl e \<Rightarrow> Inl e
      | Inr s1 \<Rightarrow> runCommand (s1\<lparr>len := len s1 - 1\<rparr>))"

text \<open>Every iteration reads from the field or lowers a positive repeat count: the loop ends.\<close>

lemma readVarint_inside:
  "inside p \<noteq> [] \<Longrightarrow> readVarint p = Inr (hd (inside p), p\<lparr>inside := tl (inside p)\<rparr>)"
  by (cases "inside p") (simp_all add: readVarint_def)

lemma readVarint_length:
  "readVarint p = Inr (v, p') \<Longrightarrow> length (inside p') \<le> length (inside p)"
  by (auto simp: readVarint_def split: list.splits)

lemma readSVarint_length:
  "readSVarint p = Inr (v, p') \<Longrightarrow> length (inside p') \<le> length (inside p)"
  by (auto simp: readSVarint_def split: sum.splits dest: readVarint_length)

lemma readSVarint_shorter:
  "inside p \<noteq> [] \<Longrightarrow> readSVarint p = Inr (v, p') \<Longrightarrow> length (inside p') < length (inside p)"
  by (cases "inside p") (auto simp: readSVarint_def readVarint_def)

lemma iteration_decreases:
  assumes "inside (pbf s) \<noteq> []" and "iteration s = Inr s'"
  shows "length (inside (pbf s')) < length (inside (pbf s)) \<or>
         (length (inside (pbf s')) = length (inside (pbf s)) \<and> nat (len s') < nat (len s))"
proof (cases "len s \<le> 0")
  case True
  with assms(1) obtain s1 where r: "readCommand s = Inr s1"
    and l1: "length (inside (pbf s1)) < length (inside (pbf s))"
    by (cases "inside (pbf s)") (auto simp: readCommand_def readVarint_def)
  from assms(2) r have "runCommand (s1\<lparr>len := len s1 - 1\<rparr>) = Inr s'"
    by (simp add: iteration_def)
  then have "length (inside (pbf s')) \<le> length (inside (pbf s1))"
    by (auto simp: runCommand_def Let_def split: if_splits sum.splits option.splits list.splits
        dest!: readSVarint_length)
  with l1 show ?thesis by simp
next
  case False
  then have r: "readCommand s = Inr s" by (simp add: readCommand_def)
  from assms(2) r have run: "runCommand (s\<lparr>len := len s - 1\<rparr>) = Inr s'"
    by (simp add: iteration_def)
  show ?thesis
  proof (cases "cmd s = 1 \<or> cmd s = 2")
    case True
    with run obtain dx p1 dy p2 where "readSVarint (pbf s) = Inr (dx, p1)"
      "readSVarint p1 = Inr (dy, p2)" "pbf s' = p2"
      by (auto simp: runCommand_def Let_def split: if_splits sum.splits option.splits)
    with assms(1) show ?thesis
      using readSVarint_shorter[of "pbf s" dx p1] readSVarint_length[of p1 dy p2] by simp
  next
    case c: False
    with run have "pbf s' = pbf s" "len s' = len s - 1"
      by (auto simp: runCommand_def split: if_splits option.splits list.splits)
    with False show ?thesis by simp
  qed
qed

function loop :: "GeomState \<Rightarrow> decode_error + (int \<times> int) list list" where
  "loop s =
     (if inside (pbf s) \<noteq> []
      then (case iteration s of Inl e \<Rightarrow> Inl e | Inr s' \<Rightarrow> loop s')
      else Inr (case line s of None \<Rightarrow> lines s | Some l \<Rightarrow> lines s @ [l]))"
  by pat_completeness auto
termination
proof (relation "measures [\<lambda>s. length (inside (pbf s)), \<lambda>s. nat (len s)]")
  show "wf (measures [\<lambda>s. length (inside (pbf s)), \<lambda>s. nat (len s)])" by simp
next
  fix s :: GeomState and s'
  assume "inside (pbf s) \<noteq> []" and "iteration s = Inr s'"
  from iteration_decreases[OF this]
  show "(s', s) \<in> measures [\<lambda>s. length (inside (pbf s)), \<lambda>s. nat (len s)]" by auto
qed

declare loop.simps [simp del]

text \<open>\<open>loadGeometry\<close>, from the start of the geometry field.\<close>

definition loadGeometry :: "nat list \<Rightarrow> nat list \<Rightarrow> decode_error + (int \<times> int) list list" where
  "loadGeometry geometry following =
     loop \<lparr>pbf = \<lparr>inside = geometry, after = following\<rparr>, cmd = 1, len = 0,
           x_pos = 0, y_pos = 0, lines = [], line = None\<rparr>"

section \<open>Buffer builders: the walls of an extruded polygon\<close>

text \<open>
  \<open>Math.sqrt\<close> is the real square root here; it takes no part in what is proved, and is
  kept out of evaluation.
\<close>

definition MIN_VISIBLE_HEIGHT :: real where
  "MIN_VISIBLE_HEIGHT = 0.01"

definition js_sqrt :: "real \<Rightarrow> real" where
  "js_sqrt x = sqrt x"

declare js_sqrt_def [code del]

text \<open>
  Reading an array at an index: \<open>None\<close> stands for \<open>undefined\<close>, outside the array.
\<close>

definition getAt :: "real list \<Rightarrow> int \<Rightarrow> real option" where
  "getAt xs i = (if 0 \<le> i \<and> i < int (length xs) then Some (xs ! nat i) else None)"

text \<open>
  \<open>signedArea\<close>: the loop with its running sum, and the function. A sum that involves
  \<open>undefined\<close> is NaN, \<open>None\<close> here; a comparison with NaN is false.
\<close>

function signedAreaFrom :: "real list \<Rightarrow> int \<Rightarrow> int \<Rightarrow> real option \<Rightarrow> real option" where
  "signedAreaFrom lineString i n acc =
     (if i < n
      then signedAreaFrom lineString (i + 3) n
             (case (acc, getAt lineString i, getAt lineString (i + 1),
                    getAt lineString (i + 3), getAt lineString (i + 4)) of
                (Some s, Some p1x, Some p1y, Some p2x, Some p2y) \<Rightarrow>
                   Some (s + (p2x - p1x) * (p1y + p2y))
              | _ \<Rightarrow> None)
      else acc)"
  by pat_completeness auto
termination
  by (relation "measure (\<lambda>(lineString, i, n, acc). nat (n - i))") auto

declare signedAreaFrom.simps [simp del]

definition signedArea :: "real list \<Rightarrow> int \<Rightarrow> int \<Rightarrow> real option" where
  "signedArea lineString start0 stop0 = signedAreaFrom lineString start0 (stop0 - 1) (Some 0)"

text \<open>
  A flat polygon, as \<open>addPolygon\<close> returns it (its fields as \<open>addExterior\<close> reads them):
  the array of coordinates, three numbers a vertex, the range of the polygon in it, and
  the vertex numbers at which the holes start. And the arrays that \<open>addExterior\<close>
  appends to; \<open>strokeIndex\<close> is optional.
\<close>

record FlatPolygon =
  vertices :: "real list"
  fp_start :: int
  fp_stop :: int
  holes :: "int list"

record Extrusion =
  vertex :: "real list"
  normals :: "real list"
  vIndex :: "real list"
  strokeIndex :: "real list option"

text \<open>
  \<open>start + holes[holeIndex] * 3 - 6\<close>, NaN without such a hole; and the end of the ring
  for \<open>signedArea\<close>, \<open>nextHole ? nextHole + 3 : stop\<close>, where NaN and 0 are falsy.
\<close>

definition holeAt :: "FlatPolygon \<Rightarrow> nat \<Rightarrow> int option" where
  "holeAt flatPolygon holeIndex =
     (if holeIndex < length (holes flatPolygon)
      then Some (fp_start flatPolygon + holes flatPolygon ! holeIndex * 3 - 6)
      else None)"

definition ringEnd :: "int option \<Rightarrow> int \<Rightarrow> int" where
  "ringEnd nextHole stop0 = (case nextHole of None \<Rightarrow> stop0 | Some n \<Rightarrow> if n \<noteq> 0 then n + 3 else stop0)"

text \<open>The body of the \<open>if\<close>: one wall, four vertices, six indices, four normals.\<close>

definition addWall ::
  "real \<Rightarrow> real \<Rightarrow> real \<Rightarrow> real \<Rightarrow> int \<Rightarrow> int \<Rightarrow> real \<Rightarrow> real \<Rightarrow> Extrusion \<Rightarrow> Extrusion" where
  "addWall x1 y1 x2 y2 dx dy extrude extrudeBase out =
     (let vi = real (length (vertex out)) / 3;
          l = 127 / js_sqrt (real_of_int (dx * dx + dy * dy));
          nx = - real_of_int dy * l;
          ny = real_of_int dx * l
      in out\<lparr>vIndex := vIndex out @ [vi + 2, vi, vi + 1, vi + 3, vi + 2, vi + 1],
              strokeIndex := map_option (\<lambda>si. si @ [vi, vi + 1, vi + 2, vi + 3, vi, vi + 2, vi + 1, vi + 3])
                               (strokeIndex out),
              vertex := vertex out @ [x1, y1, extrude, x1, y1, extrudeBase,
                                      x2, y2, extrude, x2, y2, extrudeBase],
              normals := normals out @ [nx, ny, nx, ny, nx, ny, nx, ny]\<rparr>)"

text \<open>
  The variables of the loop of \<open>addExterior\<close>; \<open>pos\<close> is the variable \<open>start\<close>. The two
  end points of the edge that one iteration reads, forwards or, when \<open>clockwise\<close>,
  mirrored in the range of the whole polygon. Where the program would read
  \<open>undefined\<close> coordinates the model stops with \<open>None\<close>.
\<close>

record ExteriorState =
  pos :: int
  nextHole :: "int option"
  holeIndex :: nat
  clockwise :: bool
  out :: Extrusion

definition edgeAt :: "FlatPolygon \<Rightarrow> int \<Rightarrow> bool \<Rightarrow> int \<Rightarrow> (real \<times> real \<times> real \<times> real) option" where
  "edgeAt flatPolygon stop0 cw start0 =
     (let verts = vertices flatPolygon in
      if cw
      then (let i = fp_start flatPolygon + stop0 - start0
            in case (getAt verts i, getAt verts (i + 1), getAt verts (i - 3), getAt verts (i - 2)) of
                 (Some x1, Some y1, Some x2, Some y2) \<Rightarrow> Some (x1, y1, x2, y2)
               | _ \<Rightarrow> None)
      else (case (getAt verts start0, getAt verts (start0 + 1),
                  getAt verts (start0 + 3), getAt verts (start0 + 4)) of
              (Some x1, Some y1, Some x2, Some y2) \<Rightarrow> Some (x1, y1, x2, y2)
            | _ \<Rightarrow> None))"

text \<open>One iteration of the loop.\<close>

definition exteriorStep ::
  "(real \<Rightarrow> real \<Rightarrow> real \<Rightarrow> real \<Rightarrow> real \<Rightarrow> real \<Rightarrow> bool) \<Rightarrow> FlatPolygon \<Rightarrow> int \<Rightarrow> real \<Rightarrow> real \<Rightarrow> real
     \<Rightarrow> ExteriorState \<Rightarrow> ExteriorState option" where
  "exteriorStep isInBox flatPolygon stop0 tileSize extrude extrudeBase s =
     (case edgeAt flatPolygon stop0 (clockwise s) (pos s) of
        None \<Rightarrow> None
      | Some (x1, y1, x2, y2) \<Rightarrow>
          (let dx = round x1 - round x2;
               dy = round y1 - round y2;
               out1 = (if (dx \<noteq> 0 \<or> dy \<noteq> 0) \<and>
                          (isInBox x1 y1 0 0 tileSize tileSize \<or> isInBox x2 y2 0 0 tileSize tileSize)
                       then addWall x1 y1 x2 y2 dx dy extrude extrudeBase (out s)
                       else out s)
           in if Some (pos s) = nextHole s
              then (let start1 = pos s + 6;
                        hole1 = holeAt flatPolygon (holeIndex s + 1)
                    in Some (s\<lparr>pos := start1, nextHole := hole1, holeIndex := holeIndex s + 1,
                              clockwise := (case signedArea (vertex out1) start1 (ringEnd hole1 stop0) of
                                              None \<Rightarrow> False | Some a \<Rightarrow> a < 0),
                              out := out1\<rparr>))
              else Some (s\<lparr>pos := pos s + 3, out := out1\<rparr>)))"

lemma exteriorStep_pos:
  "exteriorStep isInBox flatPolygon stop0 tileSize extrude extrudeBase s = Some s' \<Longrightarrow> pos s < pos s'"
  by (auto simp: exteriorStep_def Let_def split: option.splits prod.splits if_splits)

function exteriorLoop ::
  "(real \<Rightarrow> real \<Rightarrow> real \<Rightarrow> real \<Rightarrow> real \<Rightarrow> real \<Rightarrow> bool) \<Rightarrow> FlatPolygon \<Rightarrow> int \<Rightarrow> real \<Rightarrow> real \<Rightarrow> real
     \<Rightarrow> ExteriorState \<Rightarrow> Extrusion option" where
  "exteriorLoop isInBox flatPolygon stop0 tileSize extrude extrudeBase s =
     (if pos s < stop0
      then (case exteriorStep isInBox flatPolygon stop0 tileSize extrude extrudeBase s of
              None \<Rightarrow> None
            | Some s' \<Rightarrow> exteriorLoop isInBox flatPolygon stop0 tileSize extrude extrudeBase s')
      else Some (out s))"
  by pat_completeness auto
termination
  by (relation "measure (\<lambda>(isInBox, flatPolygon, stop0, tileSize, extrude, extrudeBase, s). nat (stop0 - pos s))")
     (auto dest: exteriorStep_pos)

declare exteriorLoop.simps [simp del]

text \<open>\<open>addExterior\<close>; an absent or zero \<open>extrudeBase\<close> is 0.\<close>

definition addExterior ::
  "(real \<Rightarrow> real \<Rightarrow> real \<Rightarrow> real \<Rightarrow> real \<Rightarrow> real \<Rightarrow> bool) \<Rightarrow> FlatPolygon \<Rightarrow> real \<Rightarrow> real \<Rightarrow> real option
     \<Rightarrow> Extrusion \<Rightarrow> Extrusion option" where
  "addExterior isInBox flatPolygon tileSize extrude extrudeBase0 out0 =
     (let stop0 = fp_stop flatPolygon - 3;
          start0 = fp_start flatPolygon;
          hole0 = holeAt flatPolygon 0;
          cw = (case signedArea (vertex out0) start0 (ringEnd hole0 stop0) of
                  None \<Rightarrow> False | Some a \<Rightarrow> a \<ge> 0);
          extrudeBase = (case extrudeBase0 of None \<Rightarrow> 0 | Some b \<Rightarrow> b)
      in exteriorLoop isInBox flatPolygon stop0 tileSize extrude extrudeBase
           \<lparr>pos = start0, nextHole = hole0, holeIndex = 0, clockwise = cw, out = out0\<rparr>)"

text \<open>
  \<open>addExtrude\<close>. \<open>addPolygon\<close> is in another file: what it leaves is taken as given, the
  length \<open>v\<close> of \<open>vertex\<close> before, the array \<open>vertex1\<close> after, and the flat polygons. The
  containment test \<open>isInBox\<close> is imported from another file, too: a parameter.
\<close>

fun addExteriors ::
  "(real \<Rightarrow> real \<Rightarrow> real \<Rightarrow> real \<Rightarrow> real \<Rightarrow> real \<Rightarrow> bool) \<Rightarrow> FlatPolygon list \<Rightarrow> real \<Rightarrow> real \<Rightarrow> real option
     \<Rightarrow> Extrusion \<Rightarrow> Extrusion option" where
  "addExteriors isInBox [] tileSize extrude extrudeBase out0 = Some out0"
| "addExteriors isInBox (flat # flats) tileSize extrude extrudeBase out0 =
     (case addExterior isInBox flat tileSize extrude extrudeBase out0 of
        None \<Rightarrow> None
      | Some out1 \<Rightarrow> addExteriors isInBox flats tileSize extrude extrudeBase out1)"

function fakeNormals :: "nat \<Rightarrow> nat \<Rightarrow> real list \<Rightarrow> real list" where
  "fakeNormals v n ns = (if v < n then fakeNormals (v + 3) n (ns @ [0, 0]) else ns)"
  by pat_completeness auto
termination
  by (relation "measure (\<lambda>(v, n, ns). n - v)") auto

declare fakeNormals.simps [simp del]

definition addExtrude ::
  "(real \<Rightarrow> real \<Rightarrow> real \<Rightarrow> real \<Rightarrow> real \<Rightarrow> real \<Rightarrow> bool) \<Rightarrow> nat \<Rightarrow> real list \<Rightarrow> FlatPolygon list
     \<Rightarrow> real list \<Rightarrow> real list \<Rightarrow> real list option \<Rightarrow> real \<Rightarrow> real \<Rightarrow> real option
     \<Rightarrow> Extrusion option" where
  "addExtrude isInBox v vertex1 flatPolygon normals0 vIndex0 strokeIndex0 tileSize extrude extrudeBase =
     (let out0 = \<lparr>vertex = vertex1, normals = fakeNormals v (length vertex1) normals0,
                  vIndex = vIndex0, strokeIndex = strokeIndex0\<rparr>
      in if extrude > MIN_VISIBLE_HEIGHT
         then addExteriors isInBox flatPolygon tileSize extrude extrudeBase out0
         else Some out0)"

section \<open>Phase 1: what the claims speak of\<close>

text \<open>
  The closed-interval test in the words of the specification: each rectangle's
  minimum is at most the other's maximum, on both axes. Two entries collide when a box
  of one overlaps a box of the other.
\<close>

definition overlaps :: "BBox \<Rightarrow> BBox \<Rightarrow> bool" where
  "overlaps a b \<longleftrightarrow>
     minX a \<le> maxX b \<and> minX b \<le> maxX a \<and> minY a \<le> maxY b \<and> minY b \<le> maxY a"

definition collides :: "'a CollisionData_scheme \<Rightarrow> 'b CollisionData_scheme \<Rightarrow> bool" where
  "collides c d \<longleftrightarrow> list_ex (\<lambda>a. list_ex (\<lambda>b. overlaps a b) (boxes d)) (boxes c)"

text \<open>The batch under construction, and the obstacles that \<open>initTile\<close> gathered for it.\<close>

definition accepted :: "CollisionHandler \<Rightarrow> CollisionEntry list" where
  "accepted h = (case curLayerTileCollision h of None \<Rightarrow> [] | Some cur \<Rightarrow> data cur)"

definition obstacles :: "CollisionHandler \<Rightarrow> CollisionEntry list" where
  "obstacles h =
     (case curLayerTileCollision h of None \<Rightarrow> [] | Some cur \<Rightarrow> concat (map snd (existing cur)))"

text \<open>
  \<open>batch h0 rs h\<close>: some sequence of calls of \<open>insert\<close>, with any arguments, leads from
  the handler \<open>h0\<close> to the handler \<open>h\<close>, and \<open>rs\<close> are the entries that the calls returned,
  in order (a call that returns \<open>false\<close> contributes none; a call that raises leaves
  the handler as it was).
\<close>

inductive batch :: "CollisionHandler \<Rightarrow> CollisionEntry list \<Rightarrow> CollisionHandler \<Rightarrow> bool"
  for h0 :: CollisionHandler where
  batch_open: "batch h0 [] h0"
| batch_insert:
    "batch h0 rs h \<Longrightarrow>
     insert_c cx0 cy0 cz0 offsetX0 offsetY0 halfWidth0 halfHeight0 tile tileSize0 priority0 slope0 h
       = Inr (r, h') \<Longrightarrow>
     batch h0 (rs @ (case r of None \<Rightarrow> [] | Some e \<Rightarrow> [e])) h'"

subsection \<open>Examples\<close>

text \<open>The handler as its constructor leaves it.\<close>

definition newCollisionHandler :: CollisionHandler where
  "newCollisionHandler =
     \<lparr>tiles = Map.empty, curLayerTileCollision = None, updated = False, timer = None\<rparr>"

definition tile0 :: Tile where
  "tile0 = \<lparr>quadkey = ''0'', tile_x = 0, tile_y = 0, tile_z = 1\<rparr>"

definition layer1 :: Layer where
  "layer1 = \<lparr>layer_id = 1, layer_tileSize = 512\<rparr>"

definition noQuadKey :: "int \<Rightarrow> int \<Rightarrow> int \<Rightarrow> string" where
  "noQuadKey z y x = ''-''"

text \<open>The entry that \<open>insert\<close> makes for a 5 by 5 half size at \<open>(x, y)\<close> of tile \<open>tile0\<close>.\<close>

definition plainEntry :: "real \<Rightarrow> real \<Rightarrow> real \<Rightarrow> CollisionEntry" where
  "plainEntry x y p =
     \<lparr>boxes = [\<lparr>minX = x - 9, maxX = x + 9, minY = y - 9, maxY = y + 9\<rparr>], attrs = [],
      priority = p, slope = None, cx = x, cy = y, cz = 0, offsetX = 0, offsetY = 0,
      halfWidth = 9, halfHeight = 9\<rparr>"

text \<open>A handler whose cache holds one entry of another layer for the tile \<open>tile0\<close>.\<close>

definition cachedHandler :: CollisionHandler where
  "cachedHandler = newCollisionHandler\<lparr>tiles := [''0'' \<mapsto> [(''2-0'', [plainEntry 110 110 5])]]\<rparr>"

definition cachedBatch :: "CollisionEntry list \<Rightarrow> bool \<Rightarrow> CollisionHandler" where
  "cachedBatch ds u =
     cachedHandler\<lparr>curLayerTileCollision := Some
        \<lparr>tileKey = ''0'', data = ds, dataKey = ''1-0'',
         existing = [(''neighbours'', []), (''2-0'', [plainEntry 110 110 5])]\<rparr>,
        updated := u\<rparr>"

text \<open>A square box, by its centre and half size.\<close>

definition square :: "real \<Rightarrow> real \<Rightarrow> real \<Rightarrow> BBox" where
  "square x y r = \<lparr>minX = x - r, maxX = x + r, minY = y - r, maxY = y + r\<rparr>"


definition newBatch :: "CollisionEntry list \<Rightarrow> bool \<Rightarrow> CollisionHandler" where
  "newBatch ds u = newCollisionHandler\<lparr>curLayerTileCollision := Some
        \<lparr>tileKey = ''0'', data = ds, dataKey = ''1-0'', existing = [(''neighbours'', [])]\<rparr>,
      updated := u\<rparr>"

text \<open>The tile of the 512 pixel grid that contains a tile of the 256 pixel grid.\<close>

definition parentTile :: "Tile \<Rightarrow> Tile" where
  "parentTile t = \<lparr>quadkey = butlast (quadkey t), tile_x = tile_x t div 2, tile_y = tile_y t div 2,
                    tile_z = tile_z t - 1\<rparr>"

text \<open>The cache key and the data key of the batch under construction.\<close>

definition batchKeys :: "CollisionHandler \<Rightarrow> (string \<times> string) option" where
  "batchKeys h = map_option (\<lambda>cur. (tileKey cur, dataKey cur)) (curLayerTileCollision h)"

text \<open>A tile of a layer of 256 pixel tiles whose parent is \<open>tile0\<close>, and its batch.\<close>

definition tile01 :: Tile where
  "tile01 = \<lparr>quadkey = ''01'', tile_x = 1, tile_y = 0, tile_z = 2\<rparr>"

definition layer2 :: Layer where
  "layer2 = \<lparr>layer_id = 2, layer_tileSize = 256\<rparr>"

definition smallBatch :: "CollisionEntry list \<Rightarrow> bool \<Rightarrow> CollisionHandler" where
  "smallBatch ds u = newCollisionHandler\<lparr>curLayerTileCollision := Some
        \<lparr>tileKey = ''0'', data = ds, dataKey = ''2-01'', existing = [(''neighbours'', [])]\<rparr>,
      updated := u\<rparr>"

section \<open>Phase 2: what the claims speak of\<close>

text \<open>
  The two lists of visible items after one entry of the sweep, and after all entries:
  the sweep of \<open>updateTiles\<close> without the buffers.
\<close>

definition nextMapAligned ::
  "CollisionData list \<Rightarrow> CollisionData list \<Rightarrow> CollisionData \<Rightarrow> CollisionData list" where
  "nextMapAligned vM vV bbox =
     (if \<not> hides vM vV bbox \<and> slope bbox \<noteq> None then vM @ [bbox] else vM)"

definition nextViewportAligned ::
  "CollisionData list \<Rightarrow> CollisionData list \<Rightarrow> CollisionData \<Rightarrow> CollisionData list" where
  "nextViewportAligned vM vV bbox =
     (if \<not> hides vM vV bbox \<and> slope bbox = None then vV @ [bbox] else vV)"

fun visibleItems ::
  "CollisionData list \<Rightarrow> CollisionData list \<Rightarrow> CollisionData list
     \<Rightarrow> CollisionData list \<times> CollisionData list" where
  "visibleItems [] vM vV = (vM, vV)"
| "visibleItems (bbox # rest) vM vV =
     visibleItems rest (nextMapAligned vM vV bbox) (nextViewportAligned vM vV bbox)"

text \<open>The visibility bit of a range, as \<open>updateTiles\<close> reads it: the lowest bit of its first element.\<close>

definition isVisible :: "buffers \<Rightarrow> Attr \<Rightarrow> bool" where
  "isVisible bufs a \<longleftrightarrow>
     start a < length (buf_data (bufs (buffer a))) \<and>
     (buf_data (bufs (buffer a)) ! start a) AND 1 = 1"

subsection \<open>Examples\<close>

text \<open>A display that is neither moved, scaled nor rotated, and entries on one viewport tile.\<close>

definition identityProject :: "real \<Rightarrow> real \<Rightarrow> real \<times> real" where
  "identityProject x y = (x, y)"

definition chainAt :: "real \<Rightarrow> real \<Rightarrow> nat \<Rightarrow> CollisionEntry" where
  "chainAt p x k = \<lparr>boxes = [square (x - 3/8) 10 9, square x 10 9, square (x + 3/8) 10 9],
      attrs = [\<lparr>start = k, stop = k + 1, buffer = 0\<rparr>],
      priority = p, slope = Some (1, 0), cx = x, cy = 10, cz = 0, offsetX = 0, offsetY = 0,
      halfWidth = 9, halfHeight = 9\<rparr>"

definition chainHandler :: CollisionHandler where
  "chainHandler = newCollisionHandler\<lparr>tiles := [''0'' \<mapsto> [(''1-0'', [chainAt 2 12 1, chainAt 1 10 0])]]\<rparr>"

definition screenTile0 :: ViewportTile where
  "screenTile0 = \<lparr>vt_quadkey = ''0'', vt_x = 0, vt_y = 0, vt_scale = 1\<rparr>"

definition oneBuffer :: "int list \<Rightarrow> bool \<Rightarrow> buffers" where
  "oneBuffer d u =
     (\<lambda>n. if n = 0 then \<lparr>buf_data = d, buf_size = 1, dirty = u\<rparr>
          else \<lparr>buf_data = [], buf_size = 1, dirty = False\<rparr>)"

text \<open>
  A range is well formed in a store when it is not empty, its buffer has a positive
  vertex size, and its first element is inside the buffer's array. Two ranges are
  apart when they are in different buffers or do not overlap.
\<close>

definition wfAttr :: "buffers \<Rightarrow> Attr \<Rightarrow> bool" where
  "wfAttr bufs a \<longleftrightarrow>
     start a < stop a \<and> 0 < buf_size (bufs (buffer a)) \<and>
     start a < length (buf_data (bufs (buffer a)))"

definition apart :: "Attr \<Rightarrow> Attr \<Rightarrow> bool" where
  "apart a b \<longleftrightarrow> buffer a \<noteq> buffer b \<or> stop a \<le> start b \<or> stop b \<le> start a"

fun apartAll :: "Attr list \<Rightarrow> bool" where
  "apartAll [] = True"
| "apartAll (a # as) = (list_all (apart a) as \<and> apartAll as)"

text \<open>What a toggle never changes: the length of the array and the vertex size of each buffer.\<close>

definition shape :: "buffers \<Rightarrow> nat \<Rightarrow> nat \<times> nat" where
  "shape bufs n = (length (buf_data (bufs n)), buf_size (bufs n))"

text \<open>
  The sweep as a list of toggles: for every entry in order, every range of the entry
  with the value of \<open>intersects\<close> for the entry.
\<close>

fun work ::
  "CollisionData list \<Rightarrow> CollisionData list \<Rightarrow> CollisionData list \<Rightarrow> (Attr \<times> bool) list" where
  "work [] vM vV = []"
| "work (bbox # rest) vM vV =
     map (\<lambda>a. (a, hides vM vV bbox)) (attrs bbox) @
     work rest (nextMapAligned vM vV bbox) (nextViewportAligned vM vV bbox)"

fun applyWork :: "(Attr \<times> bool) list \<Rightarrow> buffers \<times> bool \<Rightarrow> error + (buffers \<times> bool)" where
  "applyWork [] s = Inr s"
| "applyWork ((a, its) # w) s =
     (case toggleAttr its a s of Inl e \<Rightarrow> Inl e | Inr s' \<Rightarrow> applyWork w s')"

definition boxEntry :: "real \<Rightarrow> real \<Rightarrow> nat \<Rightarrow> nat \<Rightarrow> CollisionEntry" where
  "boxEntry p x k n =
     \<lparr>boxes = [\<lparr>minX = x - 9, maxX = x + 9, minY = 1, maxY = 19\<rparr>],
      attrs = [\<lparr>start = k, stop = k + n, buffer = 0\<rparr>],
      priority = p, slope = None, cx = x, cy = 10, cz = 0, offsetX = 0, offsetY = 0,
      halfWidth = 9, halfHeight = 9\<rparr>"

definition screenBox :: "real \<Rightarrow> real \<Rightarrow> nat \<Rightarrow> nat \<Rightarrow> CollisionData" where
  "screenBox p x k n =
     \<lparr>boxes = [\<lparr>minX = x - 9, maxX = x + 9, minY = 1, maxY = 19\<rparr>],
      attrs = [\<lparr>start = k, stop = k + n, buffer = 0\<rparr>],
      priority = p, slope = None\<rparr>"


definition cacheOf :: "CollisionEntry list \<Rightarrow> CollisionHandler" where
  "cacheOf es = newCollisionHandler\<lparr>tiles := [''0'' \<mapsto> [(''1-0'', es)]]\<rparr>"

text \<open>Two passes in a row: both flags and both stores.\<close>

definition twice ::
  "(real \<Rightarrow> real \<Rightarrow> real \<times> real) \<Rightarrow> ViewportTile list \<Rightarrow> real \<Rightarrow> CollisionHandler \<Rightarrow> buffers
     \<Rightarrow> error + (bool \<times> bool \<times> buffers \<times> buffers)" where
  "twice project vtiles displayScale h bufs =
     (case updateTiles project vtiles displayScale h bufs of
        Inl e \<Rightarrow> Inl e
      | Inr (upd1, bufs1) \<Rightarrow>
          (case updateTiles project vtiles displayScale h bufs1 of
             Inl e \<Rightarrow> Inl e
           | Inr (upd2, bufs2) \<Rightarrow> Inr (upd1, upd2, bufs1, bufs2)))"

definition attrAt :: "nat \<Rightarrow> nat \<Rightarrow> Attr" where
  "attrAt k n = \<lparr>start = k, stop = k + n, buffer = 0\<rparr>"

section \<open>Scheduling: what the claim speaks of\<close>

text \<open>
  The time that passes during a list of events; the timers at the start; a handler
  with nothing scheduled; a handler with exactly one timeout pending, not yet due.
\<close>

fun waited :: "event list \<Rightarrow> nat" where
  "waited [] = 0"
| "waited (Update # es) = waited es"
| "waited (Wait n # es) = n + waited es"

definition startTimers :: Timers where
  "startTimers = \<lparr>clock = 0, queue = [], nextHandle = 1, ran = []\<rparr>"

definition idle :: "CollisionHandler \<times> Timers \<Rightarrow> bool" where
  "idle s \<longleftrightarrow> timer (fst s) = None \<and> queue (snd s) = []"

definition pending :: "nat \<Rightarrow> nat \<Rightarrow> CollisionHandler \<times> Timers \<Rightarrow> bool" where
  "pending tid due s \<longleftrightarrow>
     timer (fst s) = Some tid \<and> queue (snd s) = [(tid, due)] \<and> clock (snd s) < due"

definition oneAtMost :: "CollisionHandler \<times> Timers \<Rightarrow> bool" where
  "oneAtMost s \<longleftrightarrow> idle s \<or> (\<exists>tid due. pending tid due s)"

section \<open>Geometry decoding: what the claim speaks of\<close>

text \<open>
  The commands of a geometry, with the parameters of each repetition, and their
  encoding as the integers of the field (a command integer is the count times 8 plus
  the command id; a closePath has the count 1). A list of commands is well formed
  when every moveTo and lineTo has between 1 and \<open>2^28 - 1\<close> repetitions and no lineTo
  comes before the first moveTo; the flag says whether a moveTo has been seen.
\<close>

datatype gcmd = MoveTo "(int \<times> int) list" | LineTo "(int \<times> int) list" | ClosePath

definition zigzag :: "int \<Rightarrow> nat" where
  "zigzag v = (if 0 \<le> v then nat (2 * v) else nat (- 2 * v - 1))"

definition commandInteger :: "nat \<Rightarrow> nat \<Rightarrow> nat" where
  "commandInteger ident n = n * 8 + ident"

definition encodeParams :: "(int \<times> int) list \<Rightarrow> nat list" where
  "encodeParams ps = concat (map (\<lambda>(dx, dy). [zigzag dx, zigzag dy]) ps)"

fun encode :: "gcmd \<Rightarrow> nat list" where
  "encode (MoveTo ps) = commandInteger 1 (length ps) # encodeParams ps"
| "encode (LineTo ps) = commandInteger 2 (length ps) # encodeParams ps"
| "encode ClosePath = [commandInteger 7 1]"

definition encodeAll :: "gcmd list \<Rightarrow> nat list" where
  "encodeAll cs = concat (map encode cs)"

fun wellFormed :: "bool \<Rightarrow> gcmd list \<Rightarrow> bool" where
  "wellFormed d [] = True"
| "wellFormed d (MoveTo ps # cs) = (1 \<le> length ps \<and> length ps < 2 ^ 28 \<and> wellFormed True cs)"
| "wellFormed d (LineTo ps # cs) = (d \<and> 1 \<le> length ps \<and> length ps < 2 ^ 28 \<and> wellFormed d cs)"
| "wellFormed d (ClosePath # cs) = wellFormed d cs"

text \<open>The loop between two commands: the repeat count is 0, and a line, if any, has a point.\<close>

definition between :: "GeomState \<Rightarrow> bool" where
  "between s \<longleftrightarrow> len s = 0 \<and> line s \<noteq> Some []"

text \<open>A closed triangle.\<close>

definition ring :: "gcmd list" where
  "ring = [MoveTo [(2, 2)], LineTo [(3, 0), (0, 3)], ClosePath]"

section \<open>Extrusion: what the claim speaks of\<close>

text \<open>
  Modelled from the spec: \<open>isInBox\<close>, which is not among the sources; the claim has a
  point within the bounds \<open>[0, tileSize]\<close> on both axes.
\<close>

definition isInBox_closed :: "real \<Rightarrow> real \<Rightarrow> real \<Rightarrow> real \<Rightarrow> real \<Rightarrow> real \<Rightarrow> bool" where
  "isInBox_closed x y xmin ymin xmax ymax \<longleftrightarrow> xmin \<le> x \<and> x \<le> xmax \<and> ymin \<le> y \<and> y \<le> ymax"

text \<open>
  A square with a triangular hole, both rings closed, the square clockwise for
  \<open>signedArea\<close>; and the square alone.
\<close>

definition squareWithHole :: FlatPolygon where
  "squareWithHole =
     \<lparr>vertices = [10, 10, 5,  10, 110, 5,  110, 110, 5,  110, 10, 5,  10, 10, 5,
                  30, 30, 5,  70, 30, 5,  30, 70, 5,  30, 30, 5],
      fp_start = 0, fp_stop = 27, holes = [5]\<rparr>"

definition squareOnly :: FlatPolygon where
  "squareOnly =
     \<lparr>vertices = [10, 10, 5,  10, 110, 5,  110, 110, 5,  110, 10, 5,  10, 10, 5],
      fp_start = 0, fp_stop = 15, holes = []\<rparr>"

text \<open>The edges of the walls in \<open>vertex\<close>, after the first \<open>n\<close> numbers.\<close>

definition wallEdges :: "nat \<Rightarrow> Extrusion \<Rightarrow> (real \<times> real \<times> real \<times> real) list" where
  "wallEdges n e =
     map (\<lambda>k. (vertex e ! (n + 12 * k), vertex e ! (n + 12 * k + 1),
               vertex e ! (n + 12 * k + 6), vertex e ! (n + 12 * k + 7)))
       [0 ..< (length (vertex e) - n) div 12]"

text \<open>
  The condition of the claim for one edge; the positions of \<open>start\<close> that the loop
  visits in a polygon without holes; and the walls of a list of edges.
\<close>

definition emits ::
  "(real \<Rightarrow> real \<Rightarrow> real \<Rightarrow> real \<Rightarrow> real \<Rightarrow> real \<Rightarrow> bool) \<Rightarrow> real \<Rightarrow> real \<times> real \<times> real \<times> real \<Rightarrow> bool" where
  "emits isInBox tileSize e =
     (case e of (x1, y1, x2, y2) \<Rightarrow>
        (round x1 \<noteq> round x2 \<or> round y1 \<noteq> round y2) \<and>
        (isInBox x1 y1 0 0 tileSize tileSize \<or> isInBox x2 y2 0 0 tileSize tileSize))"

function walk :: "int \<Rightarrow> int \<Rightarrow> int list" where
  "walk p stop0 = (if p < stop0 then p # walk (p + 3) stop0 else [])"
  by pat_completeness auto
termination
  by (relation "measure (\<lambda>(p, stop0). nat (stop0 - p))") auto

declare walk.simps [simp del]

fun walls ::
  "(real \<Rightarrow> real \<Rightarrow> real \<Rightarrow> real \<Rightarrow> real \<Rightarrow> real \<Rightarrow> bool) \<Rightarrow> real \<Rightarrow> real \<Rightarrow> real
     \<Rightarrow> (real \<times> real \<times> real \<times> real) option list \<Rightarrow> Extrusion \<Rightarrow> Extrusion option" where
  "walls isInBox tileSize extrude extrudeBase [] e = Some e"
| "walls isInBox tileSize extrude extrudeBase (None # es) e = None"
| "walls isInBox tileSize extrude extrudeBase (Some (x1, y1, x2, y2) # es) e =
     walls isInBox tileSize extrude extrudeBase es
       (if emits isInBox tileSize (x1, y1, x2, y2)
        then addWall x1 y1 x2 y2 (round x1 - round x2) (round y1 - round y2) extrude extrudeBase e
        else e)"

section \<open>Phase 1: proofs\<close>

lemma collides_sym: "collides c d = collides d c"
  by (auto simp: collides_def overlaps_def list_ex_iff)

lemma intersects_iff: "intersects c ds \<longleftrightarrow> (\<exists>d\<in>set ds. collides c d)"
  by (auto simp: intersects_def collides_def overlaps_def list_ex_iff)

lemma intersects_Nil: "intersects c [] = False"
  by (simp add: intersects_def)

lemma insert_c_rejected:
  assumes "insert_c a1 a2 a3 a4 a5 a6 a7 tile ts pr sl h = Inr (None, h')"
  shows "h' = h"
  using assms
  by (auto simp: insert_c_def Let_def split: prod.splits sum.splits option.splits if_splits)

lemma insert_c_accepted:
  assumes "insert_c a1 a2 a3 a4 a5 a6 a7 tile ts pr sl h = Inr (Some e, h')"
  shows "accepted h' = accepted h @ [e]" and "obstacles h' = obstacles h"
    and "curLayerTileCollision h \<noteq> None"
    and "\<forall>d\<in>set (accepted h). \<not> collides e d"
    and "\<forall>d\<in>set (obstacles h). \<not> collides e d"
  using assms
  by (auto simp: insert_c_def Let_def accepted_def obstacles_def intersects_iff list_ex_iff
      split: prod.splits sum.splits option.splits if_splits)

text \<open>
  The invariant of a batch, by induction on the calls: the batch holds exactly the
  returned entries, the obstacles never change, and a new entry is only appended when
  it collides with nothing that is there.
\<close>

lemma batch_invariant:
  assumes "batch h0 rs h" and "accepted h0 = []"
  shows "accepted h = rs \<and> obstacles h = obstacles h0 \<and>
         (\<forall>i<length rs. \<forall>j<length rs. i \<noteq> j \<longrightarrow> \<not> collides (rs ! i) (rs ! j)) \<and>
         (\<forall>e\<in>set rs. \<forall>d\<in>set (obstacles h0). \<not> collides e d)"
  using assms
proof (induction rule: batch.induct)
  case batch_open
  then show ?case by simp
next
  case (batch_insert rs h cx0 cy0 cz0 offsetX0 offsetY0 halfWidth0 halfHeight0 tile tileSize0 priority0 slope0 r h')
  then have IH: "accepted h = rs" "obstacles h = obstacles h0"
     "\<forall>i<length rs. \<forall>j<length rs. i \<noteq> j \<longrightarrow> \<not> collides (rs ! i) (rs ! j)"
     "\<forall>e\<in>set rs. \<forall>d\<in>set (obstacles h0). \<not> collides e d" by auto
  show ?case
  proof (cases r)
    case None
    with batch_insert.hyps(2) have "h' = h" by (auto dest: insert_c_rejected)
    with None IH show ?thesis by simp
  next
    case (Some e)
    note acc = insert_c_accepted[OF batch_insert.hyps(2)[unfolded Some]]
    have new: "\<forall>d\<in>set rs. \<not> collides e d \<and> \<not> collides d e"
      using acc(4) IH(1) collides_sym[of e] by auto
    have pair: "\<not> collides ((rs @ [e]) ! i) ((rs @ [e]) ! j)"
      if bounds: "i < length (rs @ [e])" "j < length (rs @ [e])" "i \<noteq> j" for i j
    proof -
      consider "i < length rs" "j < length rs" | "i < length rs" "j = length rs"
        | "i = length rs" "j < length rs"
        using bounds by fastforce
      then show ?thesis
      proof cases
        case 1 then show ?thesis using IH(3) bounds(3) by (simp add: nth_append)
      next
        case 2 then show ?thesis using new by (simp add: nth_append)
      next
        case 3 then show ?thesis using new by (simp add: nth_append)
      qed
    qed
    have "accepted h' = rs @ [e]" using acc(1) IH(1) by simp
    moreover have "obstacles h' = obstacles h0" using acc(2) IH(2) by simp
    moreover have "\<forall>x\<in>set (rs @ [e]). \<forall>d\<in>set (obstacles h0). \<not> collides x d"
      using IH(4) acc(5) IH(2) by auto
    ultimately show ?thesis using pair Some by simp
  qed
qed

lemma accepted_initTile: "accepted (initTile f tile layer h) = []"
  by (simp add: initTile_def accepted_def Let_def split: prod.splits)

text \<open>
  C1. Between \<open>initTile\<close> and \<open>completeTile\<close>, whatever calls of \<open>insert\<close> are made: the
  batch holds exactly the entries that the calls returned; no two of them collide
  (no box of one overlaps a box of the other, edges that touch counting as an
  overlap); and none of them collides with an entry of the obstacles that \<open>initTile\<close>
  gathered (the neighbours and the other layers of the tile).
\<close>

theorem phase1_no_overlap:
  assumes "batch (initTile tileXYToQuadKey tile layer h) rs h'"
  shows "accepted h' = rs \<and>
         (\<forall>i<length rs. \<forall>j<length rs. i \<noteq> j \<longrightarrow> \<not> collides (rs ! i) (rs ! j)) \<and>
         (\<forall>e\<in>set rs. \<forall>d\<in>set (obstacles (initTile tileXYToQuadKey tile layer h)).
            \<not> collides e d)"
  using batch_invariant[OF assms accepted_initTile] by simp

subsection \<open>The examples, evaluated\<close>

lemma string_of_nat_1: "string_of_nat (Suc 0) = ''1''"
  by (simp add: string_of_nat.simps)

lemma neighbourOffsets_eval:
  "neighbourOffsets = [(-1,-1), (-1,0), (-1,1), (0,-1), (0,1), (1,-1), (1,0), (1,1)]"
  by (simp add: neighbourOffsets_def)

lemma makeBoxes_None:
  "makeBoxes cx1 cy1 tileX tileY hw0 hh0 None =
     Inr ([\<lparr>minX = tileX + cx1 - (hw0 + 4), maxX = tileX + cx1 + (hw0 + 4),
            minY = tileY + cy1 - (hh0 + 4), maxY = tileY + cy1 + (hh0 + 4)\<rparr>], hw0 + 4, hh0 + 4)"
  by (simp add: makeBoxes_def boxBuffer_def Let_def)

lemma initTile_cached:
  "initTile noQuadKey tile0 layer1 cachedHandler = cachedBatch [] False"
  by (simp add: initTile_def clearTile_def cachedHandler_def newCollisionHandler_def tile0_def
      layer1_def getTileCacheKey_def getDataKey_def string_of_nat_1 neighbourOffsets_eval
      noQuadKey_def spread_def setKey_def Let_def cachedBatch_def)

lemma insert_plain:
  "insert_c x y 0 0 0 5 5 tile0 512 (Some p) None h =
     (case curLayerTileCollision h of None \<Rightarrow> Inl TypeError
      | Some cur \<Rightarrow>
          if intersects (plainEntry x y p) (data cur) \<or>
             list_ex (\<lambda>(name, ds). intersects (plainEntry x y p) ds) (existing cur)
          then Inr (None, h)
          else Inr (Some (plainEntry x y p),
                    h\<lparr>updated := True,
                      curLayerTileCollision := Some (cur\<lparr>data := data cur @ [plainEntry x y p]\<rparr>)\<rparr>))"
  by (simp add: insert_c_def alignTo512_def makeBoxes_None tile0_def plainEntry_def Let_def
      split: option.splits)

text \<open>
  Four calls on the tile \<open>tile0\<close>: the first is accepted, the second collides with the
  first, the third is accepted, the fourth collides with the cached entry of the other
  layer.
\<close>

lemma batch_cached:
  "batch (initTile noQuadKey tile0 layer1 cachedHandler) [plainEntry 10 10 1, plainEntry 40 40 3]
     (cachedBatch [plainEntry 10 10 1, plainEntry 40 40 3] True)"
proof -
  let ?h0 = "initTile noQuadKey tile0 layer1 cachedHandler"
  let ?h1 = "cachedBatch [plainEntry 10 10 1] True"
  let ?h2 = "cachedBatch [plainEntry 10 10 1, plainEntry 40 40 3] True"
  have s1: "insert_c 10 10 0 0 0 5 5 tile0 512 (Some 1) None ?h0 = Inr (Some (plainEntry 10 10 1), ?h1)"
    by (simp add: insert_plain initTile_cached intersects_def plainEntry_def cachedBatch_def)
  have s2: "insert_c 12 12 0 0 0 5 5 tile0 512 (Some 2) None ?h1 = Inr (None, ?h1)"
    by (simp add: insert_plain intersects_def plainEntry_def cachedBatch_def)
  have s3: "insert_c 40 40 0 0 0 5 5 tile0 512 (Some 3) None ?h1 = Inr (Some (plainEntry 40 40 3), ?h2)"
    by (simp add: insert_plain intersects_def plainEntry_def cachedBatch_def)
  have s4: "insert_c 100 100 0 0 0 5 5 tile0 512 (Some 4) None ?h2 = Inr (None, ?h2)"
    by (simp add: insert_plain intersects_def plainEntry_def cachedBatch_def)
  have "batch ?h0 [] ?h0" by (rule batch_open)
  from batch_insert[OF this s1] have "batch ?h0 [plainEntry 10 10 1] ?h1" by simp
  from batch_insert[OF this s2] have "batch ?h0 [plainEntry 10 10 1] ?h1" by simp
  from batch_insert[OF this s3] have "batch ?h0 [plainEntry 10 10 1, plainEntry 40 40 3] ?h2" by simp
  from batch_insert[OF this s4] show ?thesis by simp
qed

theorem phase1_no_overlap_witness:
  "batch (initTile noQuadKey tile0 layer1 cachedHandler) [plainEntry 10 10 1, plainEntry 40 40 3]
     (cachedBatch [plainEntry 10 10 1, plainEntry 40 40 3] True) \<and>
   accepted (cachedBatch [plainEntry 10 10 1, plainEntry 40 40 3] True)
     = [plainEntry 10 10 1, plainEntry 40 40 3] \<and>
   \<not> collides (plainEntry 10 10 1) (plainEntry 40 40 3) \<and>
   \<not> collides (plainEntry 40 40 3) (plainEntry 10 10 1) \<and>
   obstacles (initTile noQuadKey tile0 layer1 cachedHandler) = [plainEntry 110 110 5] \<and>
   \<not> collides (plainEntry 10 10 1) (plainEntry 110 110 5) \<and>
   \<not> collides (plainEntry 40 40 3) (plainEntry 110 110 5)"
proof -
  note inv = phase1_no_overlap[OF batch_cached]
  have obs: "obstacles (initTile noQuadKey tile0 layer1 cachedHandler) = [plainEntry 110 110 5]"
    by (simp add: initTile_cached obstacles_def cachedBatch_def)
  from inv have pairs: "\<And>i j. i < 2 \<Longrightarrow> j < 2 \<Longrightarrow> i \<noteq> j \<Longrightarrow>
      \<not> collides ([plainEntry 10 10 1, plainEntry 40 40 3] ! i) ([plainEntry 10 10 1, plainEntry 40 40 3] ! j)"
    by simp
  from pairs[of 0 1] pairs[of 1 0] inv obs batch_cached show ?thesis by simp
qed

text \<open>
  C6. In a batch that is open and empty, with no obstacle: \<open>insert\<close> of a 5 by 5 half
  size at \<open>(10, 10)\<close> with priority 1 is accepted, and \<open>insert\<close> of the same size at
  \<open>(12, 12)\<close> with priority 2 on the same tile then returns \<open>false\<close> and leaves the batch
  as it is, whatever the tile and the tile size.
\<close>

theorem box_rejection:
  assumes "curLayerTileCollision h = Some cur" and "data cur = []"
    and "\<forall>(name, ds)\<in>set (existing cur). ds = []"
  shows "\<exists>e1 h1.
           insert_c 10 10 0 0 0 5 5 tile tileSize0 (Some 1) None h = Inr (Some e1, h1) \<and>
           accepted h1 = [e1] \<and>
           insert_c 12 12 0 0 0 5 5 tile tileSize0 (Some 2) None h1 = Inr (None, h1)"
proof -
  obtain cx1 cy1 ts1 tx ty tz where al: "alignTo512 10 10 tile tileSize0 = (cx1, cy1, ts1, tx, ty, tz)"
    by (cases "alignTo512 10 10 tile tileSize0") auto
  have al2: "alignTo512 12 12 tile tileSize0 = (cx1 + 2, cy1 + 2, ts1, tx, ty, tz)"
    using al by (auto simp: alignTo512_def split: if_splits)
  have ex: "\<not> list_ex (\<lambda>(name, ds). intersects c ds) (existing cur)" for c :: CollisionEntry
    using assms(3) by (auto simp: list_ex_iff intersects_def)
  define e1 :: CollisionEntry where "e1 =
    \<lparr>boxes = [\<lparr>minX = real_of_int tx * ts1 + 0 + cx1 - (5 + 4), maxX = real_of_int tx * ts1 + 0 + cx1 + (5 + 4),
            minY = real_of_int ty * ts1 + 0 + cy1 - (5 + 4), maxY = real_of_int ty * ts1 + 0 + cy1 + (5 + 4)\<rparr>],
      attrs = [], priority = 1, slope = None, cx = cx1, cy = cy1, cz = 0, offsetX = 0, offsetY = 0,
      halfWidth = 5 + 4, halfHeight = 5 + 4\<rparr>"
  define h1 where "h1 = h\<lparr>updated := True, curLayerTileCollision := Some (cur\<lparr>data := data cur @ [e1]\<rparr>)\<rparr>"
  have first: "insert_c 10 10 0 0 0 5 5 tile tileSize0 (Some 1) None h = Inr (Some e1, h1)"
    using assms(1,2) ex
    by (simp add: insert_c_def al makeBoxes_None Let_def e1_def h1_def intersects_Nil)
  have second: "insert_c 12 12 0 0 0 5 5 tile tileSize0 (Some 2) None h1 = Inr (None, h1)"
    using assms(2)
    by (simp add: insert_c_def al2 makeBoxes_None Let_def e1_def h1_def intersects_def)
  have "accepted h1 = [e1]"
    using assms(2) by (simp add: accepted_def h1_def)
  with first second show ?thesis by blast
qed

lemma initTile_new:
  "initTile noQuadKey tile0 layer1 newCollisionHandler =
     newCollisionHandler\<lparr>curLayerTileCollision := Some
        \<lparr>tileKey = ''0'', data = [], dataKey = ''1-0'', existing = [(''neighbours'', [])]\<rparr>\<rparr>"
  by (simp add: initTile_def clearTile_def newCollisionHandler_def tile0_def
      layer1_def getTileCacheKey_def getDataKey_def string_of_nat_1 neighbourOffsets_eval
      noQuadKey_def spread_def Let_def)

theorem box_rejection_witness:
  "\<exists>e1 h1.
     insert_c 10 10 0 0 0 5 5 tile0 512 (Some 1) None
       (initTile noQuadKey tile0 layer1 newCollisionHandler) = Inr (Some e1, h1) \<and>
     accepted h1 = [e1] \<and>
     insert_c 12 12 0 0 0 5 5 tile0 512 (Some 2) None h1 = Inr (None, h1)"
proof (rule box_rejection)
  show "curLayerTileCollision (initTile noQuadKey tile0 layer1 newCollisionHandler) =
    Some \<lparr>tileKey = ''0'', data = [], dataKey = ''1-0'', existing = [(''neighbours'', [])]\<rparr>"
    by (simp add: initTile_new)
qed simp_all

subsection \<open>Slope chains and the two tile sizes\<close>



lemma gt_one_and_a_half: "(3 < real_of_int k * 2) = (2 \<le> k)"
  by linarith











lemma string_of_digit_inj:
  assumes "a < 10" "b < 10" "string_of_digit a = string_of_digit b"
  shows "a = b"
proof -
  have "a \<in> {0,1,2,3,4,5,6,7,8,9}" "b \<in> {0,1,2,3,4,5,6,7,8,9}" using assms(1,2) by auto
  with assms(3) show ?thesis by (elim insertE emptyE; simp)
qed

lemma string_of_digit_no_dash: "n < 10 \<Longrightarrow> string_of_digit n \<noteq> CHR ''-''"
proof -
  assume "n < 10"
  then have "n \<in> {0,1,2,3,4,5,6,7,8,9}" by auto
  then show ?thesis by (elim insertE emptyE; simp)
qed

lemma string_of_nat_no_dash: "CHR ''-'' \<notin> set (string_of_nat n)"
proof (induction n rule: string_of_nat.induct)
  case (1 n)
  show ?case
  proof (cases "n < 10")
    case True
    then show ?thesis
      using string_of_digit_no_dash[of n] by (subst string_of_nat.simps) auto
  next
    case False
    then show ?thesis
      using 1 string_of_digit_no_dash[of "n mod 10"] by (subst string_of_nat.simps) auto
  qed
qed

lemma string_of_nat_nonempty: "string_of_nat n \<noteq> []"
  by (subst string_of_nat.simps) simp

lemma string_of_nat_inj: "string_of_nat a = string_of_nat b \<Longrightarrow> a = b"
proof (induction a arbitrary: b rule: string_of_nat.induct)
  case (1 a)
  show ?case
  proof (cases "a < 10")
    case a: True
    show ?thesis
    proof (cases "b < 10")
      case True
      with a 1(2) show ?thesis
        using string_of_digit_inj[of a b] by (simp add: string_of_nat.simps[of a] string_of_nat.simps[of b])
    next
      case False
      with a 1(2) show ?thesis
        using string_of_nat_nonempty[of "b div 10"]
        by (simp add: string_of_nat.simps[of a] string_of_nat.simps[of b] Cons_eq_append_conv)
    qed
  next
    case a: False
    show ?thesis
    proof (cases "b < 10")
      case True
      with a 1(2) show ?thesis
        using string_of_nat_nonempty[of "a div 10"]
        by (simp add: string_of_nat.simps[of a] string_of_nat.simps[of b] append_eq_Cons_conv)
    next
      case False
      with a 1(2) have "string_of_nat (a div 10) = string_of_nat (b div 10)"
        and "string_of_digit (a mod 10) = string_of_digit (b mod 10)"
        by (simp_all add: string_of_nat.simps[of a] string_of_nat.simps[of b])
      then have "a div 10 = b div 10" "a mod 10 = b mod 10"
        using 1(1)[OF a] string_of_digit_inj[of "a mod 10" "b mod 10"] by auto
      then show ?thesis by (metis div_mult_mod_eq)
    qed
  qed
qed

lemma split_at_dash:
  assumes "xs @ CHR ''-'' # q1 = ys @ CHR ''-'' # q2" "CHR ''-'' \<notin> set xs" "CHR ''-'' \<notin> set ys"
  shows "xs = ys \<and> q1 = q2"
proof -
  have tw: "takeWhile (\<lambda>c. c \<noteq> CHR ''-'') (zs @ CHR ''-'' # q) = zs"
    if "CHR ''-'' \<notin> set zs" for zs q
    using that by (induction zs) auto
  from tw[OF assms(2), of q1] tw[OF assms(3), of q2] assms(1) have "xs = ys" by simp
  with assms(1) show ?thesis by simp
qed

lemma getDataKey_inj:
  "getDataKey q1 l1 = getDataKey q2 l2 \<Longrightarrow> layer_id l1 = layer_id l2 \<and> q1 = q2"
  using split_at_dash[of "string_of_nat (layer_id l1)" q1 "string_of_nat (layer_id l2)" q2]
    string_of_nat_no_dash string_of_nat_inj
  by (auto simp: getDataKey_def)

lemma toInt32_half:
  assumes "0 \<le> x" "x < 2 ^ 32"
  shows "toInt32 (real_of_int x * 0.5) = x div 2"
proof -
  have "real_of_int x * 0.5 = real_of_int x / real_of_int 2" by simp
  then have "\<lfloor>real_of_int x * 0.5\<rfloor> = x div 2"
    by (simp only: floor_divide_of_int_eq)
  moreover have "\<not> real_of_int x * 0.5 < 0" using assms(1) by simp
  ultimately have "js_trunc (real_of_int x * 0.5) = x div 2"
    by (simp only: js_trunc_def if_False)
  moreover have "signed_take_bit 31 (x div 2) = x div 2"
    using assms by (intro signed_take_bit_int_eq_self) auto
  ultimately show ?thesis
    by (simp add: toInt32_def sint_sbintrunc')
qed

lemma js_rem_2: "0 \<le> x \<Longrightarrow> js_rem x 2 = x mod 2"
  by (simp add: js_rem_def smod_int_alt_def sgn_if)

lemma alignTo512_256:
  assumes "0 \<le> tile_x t" "tile_x t < 2 ^ 32" "0 \<le> tile_y t" "tile_y t < 2 ^ 32"
  shows "alignTo512 cx0 cy0 t 256 =
         alignTo512 (cx0 + real_of_int (tile_x t mod 2) * 256) (cy0 + real_of_int (tile_y t mod 2) * 256)
           (parentTile t) 512"
  using assms toInt32_half[of "tile_x t"] toInt32_half[of "tile_y t"]
  by (simp add: alignTo512_def parentTile_def js_rem_2)

lemma set_map_setKey:
  "(a, b) \<in> set (map (\<lambda>(k', v'). (k', if k' = k then v else v')) m) \<longleftrightarrow>
     (\<exists>b'. (a, b') \<in> set m \<and> b = (if a = k then v else b'))"
  by (induction m) auto

lemma set_setKey:
  "(a, b) \<in> set (setKey k v m) \<longleftrightarrow> (if a = k then b = v else (a, b) \<in> set m)"
proof (cases "k \<in> set (map fst m)")
  case True
  then obtain b0 where "(k, b0) \<in> set m" by auto
  with True show ?thesis
    unfolding setKey_def by (auto simp: set_map_setKey simp del: set_map)
next
  case False
  then have "\<And>b'. (k, b') \<notin> set m" by force
  with False show ?thesis
    unfolding setKey_def by auto
qed

lemma setKey_mem: "(k, v) \<in> set (setKey k v m)"
  by (simp add: set_setKey)

lemma setKey_other: "k' \<noteq> k \<Longrightarrow> (k', v') \<in> set (setKey k v m) \<longleftrightarrow> (k', v') \<in> set m"
  by (simp add: set_setKey)

lemma setKey_values: "(k, v') \<in> set (setKey k v m) \<Longrightarrow> v' = v"
  by (simp add: set_setKey)

lemma spread_snoc: "spread acc (kvs @ [(k, v)]) = setKey k v (spread acc kvs)"
  by (simp add: spread_def)

lemma spread_mem:
  assumes "(k, v) \<in> set kvs" "\<forall>v'. (k, v') \<in> set kvs \<longrightarrow> v' = v"
  shows "(k, v) \<in> set (spread acc kvs)"
  using assms
proof (induction kvs rule: rev_induct)
  case Nil
  then show ?case by simp
next
  case (snoc kv kvs)
  obtain k' v' where kv: "kv = (k', v')" by (cases kv)
  show ?case
  proof (cases "k' = k")
    case True
    have "(k, v') \<in> set (kvs @ [kv])" using True kv by simp
    with snoc.prems(2) have "v' = v" by blast
    with True kv show ?thesis by (simp add: spread_snoc setKey_mem)
  next
    case False
    have "(k, v) \<in> set kvs" using snoc.prems(1) False kv by simp
    moreover have "\<forall>v'. (k, v') \<in> set kvs \<longrightarrow> v' = v" using snoc.prems(2) by simp
    ultimately have "(k, v) \<in> set (spread acc kvs)" by (rule snoc.IH)
    with False kv show ?thesis by (simp add: spread_snoc setKey_other)
  qed
qed

lemma completed_batch_is_obstacle:
  assumes cur: "curLayerTileCollision h = Some cur"
    and fin: "completeTile h = Inr (u, h1)"
    and key: "getTileCacheKey (quadkey tile) layer = tileKey cur"
    and other: "getDataKey (quadkey tile) layer \<noteq> dataKey cur"
  shows "set (data cur) \<subseteq> set (obstacles (initTile f tile layer h1))"
proof -
  define old where "old = (case tiles h (tileKey cur) of None \<Rightarrow> [] | Some m \<Rightarrow> m)"
  define m where "m = setKey (dataKey cur) (data cur) old"
  have h1: "h1 = h\<lparr>tiles := (tiles h)(tileKey cur \<mapsto> m), curLayerTileCollision := None\<rparr>"
    using cur fin by (simp add: completeTile_def Let_def m_def old_def)
  define m' where "m' = filter (\<lambda>(k, v). k \<noteq> getDataKey (quadkey tile) layer) m"
  have in_m': "(dataKey cur, data cur) \<in> set m'"
    using other by (simp add: m'_def m_def setKey_mem)
  have only: "\<forall>v'. (dataKey cur, v') \<in> set m' \<longrightarrow> v' = data cur"
    by (auto simp: m'_def m_def dest: setKey_values)
  have ne: "m' \<noteq> []" using in_m' by auto
  define hc where "hc = clearTile (quadkey tile) layer h1"
  have tl: "tiles hc (tileKey cur) = Some m'"
    using ne by (simp add: hc_def clearTile_def h1 key Let_def m'_def)
  have "\<exists>nb. map_option existing (curLayerTileCollision (initTile f tile layer h1)) =
          Some (spread [(''neighbours'', nb)] m')"
    using tl
    apply (simp add: initTile_def Let_def hc_def[symmetric] key split: prod.splits)
    apply blast
    done
  then obtain nb c where c: "curLayerTileCollision (initTile f tile layer h1) = Some c"
      and ex: "existing c = spread [(''neighbours'', nb)] m'" by auto
  have "(dataKey cur, data cur) \<in> set (existing c)"
    unfolding ex using in_m' only by (rule spread_mem)
  then show ?thesis
    by (force simp: obstacles_def c)
qed

lemma insert_c_keys:
  assumes "insert_c a1 a2 a3 a4 a5 a6 a7 tile ts pr sl h = Inr (r, h')"
  shows "batchKeys h' = batchKeys h"
  using assms
  by (auto simp: insert_c_def Let_def batchKeys_def
      split: prod.splits sum.splits option.splits if_splits)

lemma batch_keys: "batch h0 rs h \<Longrightarrow> batchKeys h = batchKeys h0"
  by (induction rule: batch.induct) (auto dest: insert_c_keys)

lemma batchKeys_initTile:
  "batchKeys (initTile f tile layer h) =
     Some (getTileCacheKey (quadkey tile) layer, getDataKey (quadkey tile) layer)"
  by (simp add: initTile_def batchKeys_def Let_def split: prod.splits)

lemma batch_then_obstacle:
  assumes b: "batch (initTile f t1 l1 h0) rs h"
    and key: "getTileCacheKey (quadkey t2) l2 = getTileCacheKey (quadkey t1) l1"
    and other: "getDataKey (quadkey t2) l2 \<noteq> getDataKey (quadkey t1) l1"
  shows "\<exists>h1. completeTile h = Inr (updated h, h1) \<and>
              set rs \<subseteq> set (obstacles (initTile g t2 l2 h1))"
proof -
  have "batchKeys h = Some (getTileCacheKey (quadkey t1) l1, getDataKey (quadkey t1) l1)"
    using batch_keys[OF b] by (simp add: batchKeys_initTile)
  then obtain cur where cur: "curLayerTileCollision h = Some cur"
    and tk: "tileKey cur = getTileCacheKey (quadkey t1) l1"
    and dk: "dataKey cur = getDataKey (quadkey t1) l1"
    by (auto simp: batchKeys_def)
  have acc: "data cur = rs"
    using batch_invariant[OF b accepted_initTile] cur by (simp add: accepted_def)
  obtain h1 where fin: "completeTile h = Inr (updated h, h1)"
    using cur by (simp add: completeTile_def Let_def)
  from completed_batch_is_obstacle[OF cur fin, of t2 l2 g] key other tk dk acc fin
  show ?thesis by auto
qed

text \<open>
  C4, as the code has it. A layer of 256 pixel tiles on the tile \<open>tA\<close> and a layer of
  512 pixel tiles on its parent \<open>tB\<close> have the same cache key. \<open>insert\<close> on the 256 pixel
  tile adds \<open>(x mod 2) * 256\<close> and \<open>(y mod 2) * 256\<close> to the anchor and goes on as for the
  parent 512 pixel tile: the tile size is doubled, the coordinates are not. And the
  entries of a completed batch of either layer are among the obstacles that \<open>initTile\<close>
  gathers for the other.
\<close>

theorem tile_cache_key_folding:
  assumes sizes: "layer_tileSize A = 256" "layer_tileSize B = 512"
    and ids: "layer_id A \<noteq> layer_id B"
    and parent: "quadkey tB = butlast (quadkey tA)"
    and range: "0 \<le> tile_x tA" "tile_x tA < 2 ^ 32" "0 \<le> tile_y tA" "tile_y tA < 2 ^ 32"
  shows "getTileCacheKey (quadkey tA) A = getTileCacheKey (quadkey tB) B \<and>
         insert_c cx0 cy0 cz0 ox oy hw hh tA 256 p s h =
           insert_c (cx0 + real_of_int (tile_x tA mod 2) * 256)
                    (cy0 + real_of_int (tile_y tA mod 2) * 256) cz0 ox oy hw hh (parentTile tA) 512 p s h \<and>
         (\<forall>rs h'. batch (initTile f tA A h0) rs h' \<longrightarrow>
            (\<exists>h1. completeTile h' = Inr (updated h', h1) \<and>
                  set rs \<subseteq> set (obstacles (initTile f tB B h1)))) \<and>
         (\<forall>rs h'. batch (initTile f tB B h0) rs h' \<longrightarrow>
            (\<exists>h1. completeTile h' = Inr (updated h', h1) \<and>
                  set rs \<subseteq> set (obstacles (initTile f tA A h1))))"
proof -
  have key: "getTileCacheKey (quadkey tA) A = getTileCacheKey (quadkey tB) B"
    using sizes parent by (simp add: getTileCacheKey_def)
  have dk: "getDataKey (quadkey tB) B \<noteq> getDataKey (quadkey tA) A"
    using ids getDataKey_inj[of "quadkey tB" B "quadkey tA" A] by auto
  have ins: "insert_c cx0 cy0 cz0 ox oy hw hh tA 256 p s h =
           insert_c (cx0 + real_of_int (tile_x tA mod 2) * 256)
                    (cy0 + real_of_int (tile_y tA mod 2) * 256) cz0 ox oy hw hh (parentTile tA) 512 p s h"
    unfolding insert_c_def alignTo512_256[OF range] ..
  show ?thesis
    using key ins batch_then_obstacle[of f tA A h0 _ _ tB B f, OF _ key[symmetric] dk]
      batch_then_obstacle[of f tB B h0 _ _ tA A f, OF _ key dk[symmetric]]
    by blast
qed

lemma string_of_nat_2: "string_of_nat 2 = ''2''"
  by (simp add: string_of_nat.simps)

lemma initTile_small:
  "initTile noQuadKey tile01 layer2 newCollisionHandler = smallBatch [] False"
  by (simp add: initTile_def clearTile_def newCollisionHandler_def tile01_def
      layer2_def getTileCacheKey_def getDataKey_def string_of_nat_2 neighbourOffsets_eval
      noQuadKey_def spread_def Let_def smallBatch_def)

lemma toInt32_small: "toInt32 (1 / 2) = 0" "toInt32 0 = 0"
  by (simp_all add: toInt32_def js_trunc_def)

lemma insert_small:
  "insert_c 10 10 0 0 0 5 5 tile01 256 (Some 1) None (smallBatch [] False) =
     Inr (Some (plainEntry 266 10 1), smallBatch [plainEntry 266 10 1] True)"
  by (simp add: insert_c_def alignTo512_def tile01_def makeBoxes_None Let_def plainEntry_def
      smallBatch_def newCollisionHandler_def intersects_def toInt32_small js_rem_def smod_int_alt_def)

lemma batch_small:
  "batch (initTile noQuadKey tile01 layer2 newCollisionHandler) [plainEntry 266 10 1]
     (smallBatch [plainEntry 266 10 1] True)"
  using batch_insert[OF batch_open insert_small[folded initTile_small]]
  by (simp add: initTile_small)

theorem tile_cache_key_folding_witness:
  "getTileCacheKey (quadkey tile01) layer2 = getTileCacheKey (quadkey tile0) layer1 \<and>
   insert_c 10 10 0 0 0 5 5 tile01 256 (Some 1) None (smallBatch [] False) =
     insert_c 266 10 0 0 0 5 5 (parentTile tile01) 512 (Some 1) None (smallBatch [] False) \<and>
   batch (initTile noQuadKey tile01 layer2 newCollisionHandler) [plainEntry 266 10 1]
     (smallBatch [plainEntry 266 10 1] True) \<and>
   (\<exists>h1. completeTile (smallBatch [plainEntry 266 10 1] True) = Inr (True, h1) \<and>
         set [plainEntry 266 10 1] \<subseteq> set (obstacles (initTile noQuadKey tile0 layer1 h1)))"
proof -
  have sizes: "layer_tileSize layer2 = 256" "layer_tileSize layer1 = 512"
    and ids: "layer_id layer2 \<noteq> layer_id layer1"
    and parent: "quadkey tile0 = butlast (quadkey tile01)"
    and range: "0 \<le> tile_x tile01" "tile_x tile01 < 2 ^ 32" "0 \<le> tile_y tile01" "tile_y tile01 < 2 ^ 32"
    by (simp_all add: layer1_def layer2_def tile0_def tile01_def)
  note t = tile_cache_key_folding[OF sizes ids parent range,
      of 10 10 0 0 0 5 5 "Some 1" None "smallBatch [] False" noQuadKey newCollisionHandler]
  from t have k: "getTileCacheKey (quadkey tile01) layer2 = getTileCacheKey (quadkey tile0) layer1"
    by blast
  from t have i: "insert_c 10 10 0 0 0 5 5 tile01 256 (Some 1) None (smallBatch [] False) =
     insert_c 266 10 0 0 0 5 5 (parentTile tile01) 512 (Some 1) None (smallBatch [] False)"
    by (simp add: tile01_def)
  from t batch_small have "\<exists>h1. completeTile (smallBatch [plainEntry 266 10 1] True)
        = Inr (updated (smallBatch [plainEntry 266 10 1] True), h1) \<and>
      set [plainEntry 266 10 1] \<subseteq> set (obstacles (initTile noQuadKey tile0 layer1 h1))"
    by blast
  then have o: "\<exists>h1. completeTile (smallBatch [plainEntry 266 10 1] True) = Inr (True, h1) \<and>
      set [plainEntry 266 10 1] \<subseteq> set (obstacles (initTile noQuadKey tile0 layer1 h1))"
    by (simp add: smallBatch_def)
  from k i batch_small o show ?thesis by blast
qed

text \<open>
  On the 256 pixel tile at column 0 and row 0 the anchor \<open>(10, 10)\<close> stays \<open>(10, 10)\<close> and
  the box is \<open>[1, 19]\<close> on both axes: nothing is doubled.
\<close>

theorem tile_cache_key_folding_counterexample:
  "insert_c 10 10 0 0 0 5 5 tile0 256 (Some 1) None (newBatch [] False) =
     Inr (Some (plainEntry 10 10 1), newBatch [plainEntry 10 10 1] True) \<and>
   cx (plainEntry 10 10 1) = 10 \<and> cy (plainEntry 10 10 1) = 10 \<and>
   cx (plainEntry 10 10 1) \<noteq> 2 * 10 \<and>
   boxes (plainEntry 10 10 1) = [\<lparr>minX = 1, maxX = 19, minY = 1, maxY = 19\<rparr>]"
  by (simp add: insert_c_def alignTo512_def tile0_def makeBoxes_None Let_def plainEntry_def
      newBatch_def newCollisionHandler_def intersects_def toInt32_small js_rem_def)

section \<open>Phase 2: proofs\<close>

lemma low_bit_odd: "((y::int) AND 1 = 1) = odd y"
  by (simp add: and_one_eq odd_iff_mod_2_eq_one)

lemma low_bit_xor: "((x::int) XOR 1) AND 1 = 1 \<longleftrightarrow> x AND 1 \<noteq> 1"
  unfolding low_bit_odd by (simp add: even_xor_iff)

lemma toggleRange_total:
  assumes "0 < sz"
  shows "\<exists>d'. toggleRange k stp sz d = Some d' \<and> length d' = length d \<and>
          (\<forall>i. i < k \<or> stp \<le> i \<longrightarrow> d' ! i = d ! i) \<and>
          (k < stp \<and> k < length d \<longrightarrow> d' ! k = (d ! k) XOR 1)"
  using assms
proof (induction k stp sz d rule: toggleRange.induct)
  case (1 k stp sz d)
  show ?case
  proof (cases "k < stp")
    case False
    then show ?thesis by (simp add: toggleRange.simps[of k stp sz d])
  next
    case True
    let ?d1 = "if k < length d then d[k := (d ! k) XOR 1] else d"
    from 1 True obtain d' where d': "toggleRange (k + sz) stp sz ?d1 = Some d'"
      "length d' = length ?d1" "\<forall>i. i < k + sz \<or> stp \<le> i \<longrightarrow> d' ! i = ?d1 ! i"
      by (metis less_numeral_extra(3))
    have eq: "toggleRange k stp sz d = Some d'"
      using True 1(2) d'(1) by (simp add: toggleRange.simps[of k stp sz d])
    have len: "length d' = length d" using d'(2) by simp
    have out: "d' ! i = d ! i" if "i < k \<or> stp \<le> i" for i
    proof -
      from that True have "i < k + sz \<or> stp \<le> i" "i \<noteq> k" by auto
      with d'(3) have "d' ! i = ?d1 ! i" by blast
      with \<open>i \<noteq> k\<close> show ?thesis by simp
    qed
    have at: "d' ! k = (d ! k) XOR 1" if "k < length d"
    proof -
      have "d' ! k = ?d1 ! k" using d'(3) 1(2) by simp
      with that show ?thesis by simp
    qed
    from eq len out at show ?thesis by blast
  qed
qed

lemma toggleAttr_same:
  "isVisible bufs a = (\<not> its) \<Longrightarrow> toggleAttr its a (bufs, upd) = Inr (bufs, upd)"
  by (auto simp: toggleAttr_def isVisible_def Let_def)

lemma toggleAttr_wf:
  assumes "wfAttr bufs a"
  shows "\<exists>bufs' upd'. toggleAttr its a (bufs, upd) = Inr (bufs', upd') \<and>
           shape bufs' = shape bufs \<and> isVisible bufs' a = (\<not> its) \<and>
           (\<forall>b. apart a b \<and> start b < stop b \<longrightarrow> isVisible bufs' b = isVisible bufs b)"
proof (cases "isVisible bufs a = (\<not> its)")
  case True
  then show ?thesis by (simp add: toggleAttr_same)
next
  case False
  define B where "B = bufs (buffer a)"
  have sz: "0 < buf_size B" and st: "start a < stop a" and ln: "start a < length (buf_data B)"
    using assms by (simp_all add: wfAttr_def B_def)
  from toggleRange_total[OF sz, of "start a" "stop a" "buf_data B"] st ln
  obtain d' where d': "toggleRange (start a) (stop a) (buf_size B) (buf_data B) = Some d'"
    "length d' = length (buf_data B)"
    "\<forall>i. i < start a \<or> stop a \<le> i \<longrightarrow> d' ! i = buf_data B ! i"
    "d' ! start a = (buf_data B ! start a) XOR 1" by blast
  define bufs' where "bufs' = bufs(buffer a := B\<lparr>buf_data := d', dirty := True\<rparr>)"
  have vis: "its = isVisible bufs a" using False by auto
  have res: "toggleAttr its a (bufs, upd) = Inr (bufs', True)"
    using vis d'(1) by (simp add: toggleAttr_def isVisible_def Let_def B_def bufs'_def)
  have sh: "shape bufs' = shape bufs"
    using d'(2) by (auto simp: shape_def bufs'_def B_def fun_eq_iff)
  have flip: "isVisible bufs' a = (\<not> its)"
    using ln d'(2,4) vis
    by (simp add: isVisible_def bufs'_def B_def[symmetric] low_bit_xor)
  have keep: "isVisible bufs' b = isVisible bufs b" if "apart a b" "start b < stop b" for b
  proof (cases "buffer b = buffer a")
    case False
    then show ?thesis by (simp add: isVisible_def bufs'_def)
  next
    case True
    with that have "start b < start a \<or> stop a \<le> start b" by (auto simp: apart_def)
    with d'(3) have "d' ! start b = buf_data B ! start b" by blast
    with True d'(2) show ?thesis by (simp add: isVisible_def bufs'_def B_def)
  qed
  from res sh flip keep show ?thesis by blast
qed

lemma applyWork_append:
  "applyWork (w1 @ w2) s = (case applyWork w1 s of Inl e \<Rightarrow> Inl e | Inr s' \<Rightarrow> applyWork w2 s')"
  by (induction w1 arbitrary: s) (auto split: sum.splits)

lemma toggleAttrs_work: "toggleAttrs its as s = applyWork (map (\<lambda>a. (a, its)) as) s"
  by (induction as arbitrary: s) (auto split: sum.splits)

lemma sweep_work: "sweep cs vM vV s = applyWork (work cs vM vV) s"
  by (induction cs arbitrary: vM vV s)
     (simp_all add: Let_def applyWork_append toggleAttrs_work nextMapAligned_def
        nextViewportAligned_def split: sum.splits)

lemma attrs_work: "map fst (work cs vM vV) = concat (map attrs cs)"
  by (induction cs arbitrary: vM vV) (simp_all add: comp_def)

lemma wfAttr_shape: "shape bufs' = shape bufs \<Longrightarrow> wfAttr bufs' a = wfAttr bufs a"
  by (auto simp: wfAttr_def shape_def fun_eq_iff)

lemma apart_sym: "apart a b = apart b a"
  by (auto simp: apart_def)

lemma applyWork_stable:
  "\<forall>(a, its)\<in>set w. isVisible bufs a = (\<not> its) \<Longrightarrow> applyWork w (bufs, upd) = Inr (bufs, upd)"
  by (induction w) (auto simp: toggleAttr_same)

lemma applyWork_realises:
  assumes "\<forall>(a, its)\<in>set w. wfAttr bufs a" and "apartAll (map fst w)"
  shows "\<exists>bufs' upd'. applyWork w (bufs, upd) = Inr (bufs', upd') \<and>
           shape bufs' = shape bufs \<and>
           (\<forall>(a, its)\<in>set w. isVisible bufs' a = (\<not> its)) \<and>
           (\<forall>b. list_all (\<lambda>a. apart a b) (map fst w) \<and> start b < stop b \<longrightarrow>
                isVisible bufs' b = isVisible bufs b)"
  using assms
proof (induction w arbitrary: bufs upd)
  case Nil
  then show ?case by simp
next
  case (Cons p w)
  obtain a its where p: "p = (a, its)" by (cases p)
  from Cons.prems p have wfa: "wfAttr bufs a" and wfw: "\<forall>(a, its)\<in>set w. wfAttr bufs a"
    and ap: "list_all (apart a) (map fst w)" and apw: "apartAll (map fst w)" by auto
  from toggleAttr_wf[OF wfa, of its upd] obtain bufs1 upd1 where
    t: "toggleAttr its a (bufs, upd) = Inr (bufs1, upd1)" and sh1: "shape bufs1 = shape bufs"
    and va: "isVisible bufs1 a = (\<not> its)"
    and keep1: "\<forall>b. apart a b \<and> start b < stop b \<longrightarrow> isVisible bufs1 b = isVisible bufs b"
    by blast
  have wfw1: "\<forall>(a, its)\<in>set w. wfAttr bufs1 a"
    using wfw wfAttr_shape[OF sh1] by auto
  from Cons.IH[OF wfw1 apw, of upd1] obtain bufs' upd' where
    r: "applyWork w (bufs1, upd1) = Inr (bufs', upd')" and sh: "shape bufs' = shape bufs1"
    and vw: "\<forall>(a, its)\<in>set w. isVisible bufs' a = (\<not> its)"
    and keep: "\<forall>b. list_all (\<lambda>a. apart a b) (map fst w) \<and> start b < stop b \<longrightarrow>
                isVisible bufs' b = isVisible bufs1 b"
    by blast
  have "list_all (\<lambda>c. apart c a) (map fst w)"
    using ap apart_sym by (auto simp: list_all_iff)
  moreover have "start a < stop a" using wfa by (simp add: wfAttr_def)
  ultimately have "isVisible bufs' a = isVisible bufs1 a" using keep by blast
  with va have va': "isVisible bufs' a = (\<not> its)" by simp
  have keep': "isVisible bufs' b = isVisible bufs b"
    if "list_all (\<lambda>a. apart a b) (map fst (p # w))" "start b < stop b" for b
    using that keep keep1 p by auto
  have "applyWork (p # w) (bufs, upd) = Inr (bufs', upd')" using t r p by simp
  moreover have "shape bufs' = shape bufs" using sh sh1 by simp
  moreover have "\<forall>(a, its)\<in>set (p # w). isVisible bufs' a = (\<not> its)" using va' vw p by auto
  ultimately show ?case using keep' by blast
qed

lemma updateTiles_work:
  assumes "gatherTiles project h displayScale vtiles [] = Inr G"
  shows "updateTiles project vtiles displayScale h bufs =
     (case applyWork (work (sort_key priority G) [] []) (bufs, False) of
        Inl e \<Rightarrow> Inl e | Inr (bufs', upd) \<Rightarrow> Inr (upd, bufs'))"
  using assms by (simp add: updateTiles_def sweep_work)

lemma set_attrs_sorted:
  "set (concat (map attrs (sort_key priority G))) = set (concat (map attrs G))"
  by simp

text \<open>
  C3, as the code has it. When the gathering of the viewport tiles succeeds, every
  range of a gathered entry is well formed and no two of the ranges overlap, the pass
  returns, and a second pass on the buffers it leaves (same tiles, same cache, same
  projection and scale) returns \<open>false\<close> and leaves the buffers, their dirty flags
  included, exactly as they are: no bit is toggled.
\<close>

theorem phase2_idempotent:
  assumes g: "gatherTiles project h displayScale vtiles [] = Inr G"
    and wf: "\<forall>a\<in>set (concat (map attrs G)). wfAttr bufs a"
    and ap: "apartAll (concat (map attrs (sort_key priority G)))"
  shows "\<exists>upd1 bufs1.
           updateTiles project vtiles displayScale h bufs = Inr (upd1, bufs1) \<and>
           updateTiles project vtiles displayScale h bufs1 = Inr (False, bufs1)"
proof -
  let ?w = "work (sort_key priority G) [] []"
  have fst_w: "map fst ?w = concat (map attrs (sort_key priority G))"
    by (rule attrs_work)
  have "\<forall>p\<in>set ?w. wfAttr bufs (fst p)"
  proof
    fix p assume "p \<in> set ?w"
    then have "fst p \<in> set (map fst ?w)" by (simp only: set_map) (rule imageI)
    then have "fst p \<in> set (concat (map attrs G))"
      unfolding fst_w set_attrs_sorted .
    with wf show "wfAttr bufs (fst p)" by blast
  qed
  then have wfw: "\<forall>(a, its)\<in>set ?w. wfAttr bufs a" by auto
  have apw: "apartAll (map fst ?w)" using ap by (simp only: fst_w)
  from applyWork_realises[OF wfw apw, of False] obtain bufs1 upd1 where
    r1: "applyWork ?w (bufs, False) = Inr (bufs1, upd1)"
    and vis: "\<forall>(a, its)\<in>set ?w. isVisible bufs1 a = (\<not> its)" by blast
  have r2: "applyWork ?w (bufs1, False) = Inr (bufs1, False)"
    using vis by (rule applyWork_stable)
  have "updateTiles project vtiles displayScale h bufs = Inr (upd1, bufs1)"
    using r1 by (simp add: updateTiles_work[OF g])
  moreover have "updateTiles project vtiles displayScale h bufs1 = Inr (False, bufs1)"
    using r2 by (simp add: updateTiles_work[OF g])
  ultimately show ?thesis by blast
qed

lemma hides_iff:
  "hides vM vV b \<longleftrightarrow>
     (\<exists>d\<in>set vV. collides b d) \<or> (slope b = None \<and> (\<exists>d\<in>set vM. collides b d))"
  by (auto simp: hides_def Let_def intersects_iff split: option.splits)

lemma next_mono:
  "set vM \<subseteq> set (nextMapAligned vM vV b)" "set vV \<subseteq> set (nextViewportAligned vM vV b)"
  by (auto simp: nextMapAligned_def nextViewportAligned_def)

lemma next_subset:
  "set (nextMapAligned vM vV b) \<union> set (nextViewportAligned vM vV b) \<subseteq> set vM \<union> set vV \<union> {b}"
  by (auto simp: nextMapAligned_def nextViewportAligned_def)

lemma next_new:
  assumes "c \<in> set (nextMapAligned vM vV b) \<union> set (nextViewportAligned vM vV b)"
    and "c \<notin> set vM \<union> set vV"
  shows "c = b" and "\<not> hides vM vV b"
    and "slope b = None \<Longrightarrow> c \<in> set (nextViewportAligned vM vV b)"
    and "slope b \<noteq> None \<Longrightarrow> c \<in> set (nextMapAligned vM vV b)"
  using assms by (auto simp: nextMapAligned_def nextViewportAligned_def split: if_splits)

lemma visibleItems_subset:
  "set (fst (visibleItems cs vM vV)) \<union> set (snd (visibleItems cs vM vV))
     \<subseteq> set vM \<union> set vV \<union> set cs"
proof (induction cs arbitrary: vM vV)
  case Nil
  then show ?case by simp
next
  case (Cons b cs)
  from Cons.IH[of "nextMapAligned vM vV b" "nextViewportAligned vM vV b"] next_subset[of vM vV b]
  show ?case by (simp only: visibleItems.simps set_simps) blast
qed

lemma work_hidden:
  assumes "c2 \<in> set cs" and "c1 \<in> set vV \<or> (c1 \<in> set vM \<and> slope c2 = None)"
    and "collides c2 c1"
  shows "\<forall>a\<in>set (attrs c2). (a, True) \<in> set (work cs vM vV)"
  using assms
proof (induction cs arbitrary: vM vV)
  case Nil
  then show ?case by simp
next
  case (Cons b cs)
  show ?case
  proof (cases "c2 = b")
    case True
    with Cons.prems(2,3) have "hides vM vV b" by (auto simp: hides_iff)
    with True show ?thesis by auto
  next
    case False
    with Cons.prems(1) have "c2 \<in> set cs" by simp
    moreover have "c1 \<in> set (nextViewportAligned vM vV b) \<or>
        (c1 \<in> set (nextMapAligned vM vV b) \<and> slope c2 = None)"
      using Cons.prems(2) next_mono(1)[of vM vV b] next_mono(2)[of vV vM b] by blast
    ultimately have "\<forall>a\<in>set (attrs c2).
        (a, True) \<in> set (work cs (nextMapAligned vM vV b) (nextViewportAligned vM vV b))"
      using Cons.prems(3) by (rule Cons.IH)
    then show ?thesis by simp
  qed
qed

lemma work_visible:
  assumes "c \<in> set (fst (visibleItems cs vM vV)) \<union> set (snd (visibleItems cs vM vV))"
    and "c \<notin> set vM \<union> set vV"
  shows "\<forall>a\<in>set (attrs c). (a, False) \<in> set (work cs vM vV)"
  using assms
proof (induction cs arbitrary: vM vV)
  case Nil
  then show ?case by simp
next
  case (Cons b cs)
  show ?case
  proof (cases "c \<in> set (nextMapAligned vM vV b) \<union> set (nextViewportAligned vM vV b)")
    case True
    from next_new(1,2)[OF True Cons.prems(2)] show ?thesis by auto
  next
    case False
    moreover have "c \<in> set (fst (visibleItems cs (nextMapAligned vM vV b) (nextViewportAligned vM vV b)))
        \<union> set (snd (visibleItems cs (nextMapAligned vM vV b) (nextViewportAligned vM vV b)))"
      using Cons.prems(1) by simp
    ultimately have "\<forall>a\<in>set (attrs c).
        (a, False) \<in> set (work cs (nextMapAligned vM vV b) (nextViewportAligned vM vV b))"
      by (intro Cons.IH)
    then show ?thesis by simp
  qed
qed

lemma work_priority:
  assumes "sorted (map priority cs)"
    and "c1 \<in> set (fst (visibleItems cs vM vV)) \<union> set (snd (visibleItems cs vM vV))"
    and "c1 \<notin> set vM \<union> set vV"
    and "c2 \<in> set cs" and "priority c1 < priority c2" and "collides c2 c1"
    and "slope c1 = None \<or> slope c2 = None"
  shows "\<forall>a\<in>set (attrs c2). (a, True) \<in> set (work cs vM vV)"
  using assms
proof (induction cs arbitrary: vM vV)
  case Nil
  then show ?case by simp
next
  case (Cons b cs)
  let ?vM = "nextMapAligned vM vV b"
  let ?vV = "nextViewportAligned vM vV b"
  have fin: "c1 \<in> set (fst (visibleItems cs ?vM ?vV)) \<union> set (snd (visibleItems cs ?vM ?vV))"
    using Cons.prems(2) by simp
  have srt: "sorted (map priority cs)" and low: "\<forall>c\<in>set cs. priority b \<le> priority c"
    using Cons.prems(1) by auto
  have tail: "\<forall>a\<in>set (attrs c2). (a, True) \<in> set (work cs ?vM ?vV)"
  proof (cases "c1 \<in> set ?vM \<union> set ?vV")
    case True
    note n = next_new[OF True Cons.prems(3)]
    from n(1) Cons.prems(4,5) have c2: "c2 \<in> set cs" by auto
    have "c1 \<in> set ?vV \<or> (c1 \<in> set ?vM \<and> slope c2 = None)"
      using n(1,3,4) Cons.prems(7) by (cases "slope b") auto
    with c2 show ?thesis using Cons.prems(6) by (rule work_hidden)
  next
    case False
    with fin visibleItems_subset[of cs ?vM ?vV] have "c1 \<in> set cs" by blast
    with low have "priority b \<le> priority c1" by blast
    with Cons.prems(4,5) have c2: "c2 \<in> set cs" by auto
    from srt fin False c2 Cons.prems(5,6,7) show ?thesis by (rule Cons.IH)
  qed
  then show ?case by simp
qed

lemma updateTiles_realises:
  assumes g: "gatherTiles project h displayScale vtiles [] = Inr G"
    and wf: "\<forall>a\<in>set (concat (map attrs G)). wfAttr bufs a"
    and ap: "apartAll (concat (map attrs (sort_key priority G)))"
  shows "\<exists>upd bufs'.
           updateTiles project vtiles displayScale h bufs = Inr (upd, bufs') \<and>
           (\<forall>a its. (a, its) \<in> set (work (sort_key priority G) [] []) \<longrightarrow>
                isVisible bufs' a = (\<not> its))"
proof -
  define w where "w = work (sort_key priority G) [] []"
  have fst_w: "map fst w = concat (map attrs (sort_key priority G))"
    unfolding w_def by (rule attrs_work)
  have "\<forall>p\<in>set w. wfAttr bufs (fst p)"
  proof
    fix p assume "p \<in> set w"
    then have "fst p \<in> set (map fst w)" by (simp only: set_map) (rule imageI)
    then have "fst p \<in> set (concat (map attrs G))"
      unfolding fst_w set_attrs_sorted .
    with wf show "wfAttr bufs (fst p)" by blast
  qed
  then have wfw: "\<forall>(a, its)\<in>set w. wfAttr bufs a" by auto
  have apw: "apartAll (map fst w)" using ap by (simp only: fst_w)
  from applyWork_realises[OF wfw apw, of False] obtain bufs' upd where
    r: "applyWork w (bufs, False) = Inr (bufs', upd)"
    and vis: "\<forall>(a, its)\<in>set w. isVisible bufs' a = (\<not> its)" by blast
  have res: "updateTiles project vtiles displayScale h bufs = Inr (upd, bufs')"
    using r by (simp add: updateTiles_work[OF g] w_def)
  have "isVisible bufs' a = (\<not> its)" if "(a, its) \<in> set w" for a its
    using bspec[OF vis that] by simp
  with res show ?thesis unfolding w_def by blast
qed

text \<open>
  C2, as the code has it. For gathered entries \<open>c1\<close> and \<open>c2\<close> whose screen boxes overlap,
  with the priority of \<open>c1\<close> below that of \<open>c2\<close>, at least one of them viewport aligned
  (no slope), and \<open>c1\<close> among the visible items of the sweep: after the pass every range
  of \<open>c1\<close> is visible and every range of \<open>c2\<close> is hidden, in whatever order the entries
  were gathered (the ranges being well formed and apart, as for C3).
\<close>

theorem phase2_priority:
  assumes g: "gatherTiles project h displayScale vtiles [] = Inr G"
    and wf: "\<forall>a\<in>set (concat (map attrs G)). wfAttr bufs a"
    and ap: "apartAll (concat (map attrs (sort_key priority G)))"
    and c2: "c2 \<in> set G" and pr: "priority c1 < priority c2" and ov: "collides c1 c2"
    and cls: "slope c1 = None \<or> slope c2 = None"
    and acc: "c1 \<in> set (fst (visibleItems (sort_key priority G) [] [])) \<union>
                    set (snd (visibleItems (sort_key priority G) [] []))"
  shows "\<exists>upd bufs'.
           updateTiles project vtiles displayScale h bufs = Inr (upd, bufs') \<and>
           (\<forall>a\<in>set (attrs c1). isVisible bufs' a) \<and>
           (\<forall>a\<in>set (attrs c2). \<not> isVisible bufs' a)"
proof -
  define cs where "cs = sort_key priority G"
  from updateTiles_realises[OF g wf ap] obtain upd bufs' where
    res: "updateTiles project vtiles displayScale h bufs = Inr (upd, bufs')"
    and vis: "\<And>a its. (a, its) \<in> set (work cs [] []) \<Longrightarrow> isVisible bufs' a = (\<not> its)"
    unfolding cs_def by blast
  have acc': "c1 \<in> set (fst (visibleItems cs [] [])) \<union> set (snd (visibleItems cs [] []))"
    using acc by (simp only: cs_def)
  have fresh: "c1 \<notin> set [] \<union> set ([] :: CollisionData list)" by simp
  from acc' fresh have f1: "\<forall>a\<in>set (attrs c1). (a, False) \<in> set (work cs [] [])"
    by (rule work_visible)
  have srt: "sorted (map priority cs)" unfolding cs_def by (rule sorted_sort_key)
  have c2s: "c2 \<in> set cs" using c2 by (simp add: cs_def)
  have ov': "collides c2 c1" using ov collides_sym[of c1 c2] by blast
  from srt acc' fresh c2s pr ov' cls
  have f2: "\<forall>a\<in>set (attrs c2). (a, True) \<in> set (work cs [] [])"
    by (rule work_priority)
  have v1: "\<forall>a\<in>set (attrs c1). isVisible bufs' a"
  proof
    fix a assume "a \<in> set (attrs c1)"
    with f1 have "(a, False) \<in> set (work cs [] [])" by blast
    from vis[OF this] show "isVisible bufs' a" by simp
  qed
  have v2: "\<forall>a\<in>set (attrs c2). \<not> isVisible bufs' a"
  proof
    fix a assume "a \<in> set (attrs c2)"
    with f2 have "(a, True) \<in> set (work cs [] [])" by blast
    from vis[OF this] show "\<not> isVisible bufs' a" by simp
  qed
  from res v1 v2 show ?thesis by blast
qed

text \<open>
  Three viewport aligned boxes in a row, priorities 1, 2, 3, each overlapping the
  next: the second and the third overlap and the second has the lower priority value,
  yet after the pass the second is hidden (by the first) and the third is visible.
\<close>

theorem phase2_priority_counterexample:
  "gatherTiles identityProject (cacheOf [boxEntry 1 10 0 1, boxEntry 2 20 1 1, boxEntry 3 30 2 1])
     1 [screenTile0] [] = Inr [screenBox 1 10 0 1, screenBox 2 20 1 1, screenBox 3 30 2 1] \<and>
   collides (screenBox 2 20 1 1) (screenBox 3 30 2 1) \<and>
   priority (screenBox 2 20 1 1) < priority (screenBox 3 30 2 1) \<and>
   (case updateTiles identityProject [screenTile0] 1
           (cacheOf [boxEntry 1 10 0 1, boxEntry 2 20 1 1, boxEntry 3 30 2 1])
           (oneBuffer [0, 0, 0] False) of
      Inl e \<Rightarrow> False
    | Inr (upd, bufs') \<Rightarrow>
        attrs (screenBox 2 20 1 1) = [attrAt 1 1] \<and> \<not> isVisible bufs' (attrAt 1 1) \<and>
        attrs (screenBox 3 30 2 1) = [attrAt 2 1] \<and> isVisible bufs' (attrAt 2 1))"
  by code_simp

text \<open>Two overlapping boxes, the one of priority 2 registered first: it ends hidden.\<close>

theorem phase2_priority_witness:
  "\<exists>upd bufs'.
     updateTiles identityProject [screenTile0] 1 (cacheOf [boxEntry 2 12 0 1, boxEntry 1 10 1 1])
       (oneBuffer [1, 0] False) = Inr (upd, bufs') \<and>
     (\<forall>a\<in>set (attrs (screenBox 1 10 1 1)). isVisible bufs' a) \<and>
     (\<forall>a\<in>set (attrs (screenBox 2 12 0 1)). \<not> isVisible bufs' a)"
proof (rule phase2_priority)
  show "gatherTiles identityProject (cacheOf [boxEntry 2 12 0 1, boxEntry 1 10 1 1]) 1 [screenTile0] []
      = Inr [screenBox 2 12 0 1, screenBox 1 10 1 1]"
    by code_simp
  show "\<forall>a\<in>set (concat (map attrs [screenBox 2 12 0 1, screenBox 1 10 1 1])).
      wfAttr (oneBuffer [1, 0] False) a"
    by code_simp
  show "apartAll (concat (map attrs (sort_key priority [screenBox 2 12 0 1, screenBox 1 10 1 1])))"
    by code_simp
  show "screenBox 2 12 0 1 \<in> set [screenBox 2 12 0 1, screenBox 1 10 1 1]"
    by simp
  show "priority (screenBox 1 10 1 1) < priority (screenBox 2 12 0 1)"
    by code_simp
  show "collides (screenBox 1 10 1 1) (screenBox 2 12 0 1)"
    by code_simp
  show "slope (screenBox 1 10 1 1) = None \<or> slope (screenBox 2 12 0 1) = None"
    by code_simp
  show "screenBox 1 10 1 1
      \<in> set (fst (visibleItems (sort_key priority [screenBox 2 12 0 1, screenBox 1 10 1 1]) [] [])) \<union>
        set (snd (visibleItems (sort_key priority [screenBox 2 12 0 1, screenBox 1 10 1 1]) [] []))"
    by code_simp
qed

text \<open>
  One visible entry whose range is empty (\<open>start = stop\<close>) and whose bit reads 0: both
  passes toggle nothing, and both return \<open>true\<close>.
\<close>

theorem phase2_idempotent_counterexample:
  "(case twice identityProject [screenTile0] 1 (cacheOf [boxEntry 1 10 0 0]) (oneBuffer [0] False) of
      Inl e \<Rightarrow> False
    | Inr (upd1, upd2, bufs1, bufs2) \<Rightarrow>
        upd1 \<and> upd2 \<and> buf_data (bufs1 0) = [0] \<and> buf_data (bufs2 0) = [0])"
  by code_simp

text \<open>The two overlapping boxes again: the second pass changes nothing.\<close>

theorem phase2_idempotent_witness:
  "\<exists>upd1 bufs1.
     updateTiles identityProject [screenTile0] 1 (cacheOf [boxEntry 2 12 0 1, boxEntry 1 10 1 1])
       (oneBuffer [1, 0] False) = Inr (upd1, bufs1) \<and>
     updateTiles identityProject [screenTile0] 1 (cacheOf [boxEntry 2 12 0 1, boxEntry 1 10 1 1])
       bufs1 = Inr (False, bufs1)"
proof (rule phase2_idempotent)
  show "gatherTiles identityProject (cacheOf [boxEntry 2 12 0 1, boxEntry 1 10 1 1]) 1 [screenTile0] []
      = Inr [screenBox 2 12 0 1, screenBox 1 10 1 1]"
    by code_simp
  show "\<forall>a\<in>set (concat (map attrs [screenBox 2 12 0 1, screenBox 1 10 1 1])).
      wfAttr (oneBuffer [1, 0] False) a"
    by code_simp
  show "apartAll (concat (map attrs (sort_key priority [screenBox 2 12 0 1, screenBox 1 10 1 1])))"
    by code_simp
qed

lemma pair_run:
  "(case twice identityProject [screenTile0] 1 (cacheOf [boxEntry 2 12 0 1, boxEntry 1 10 1 1])
           (oneBuffer [1, 0] False) of
      Inl e \<Rightarrow> False
    | Inr (upd1, upd2, bufs1, bufs2) \<Rightarrow>
        upd1 \<and> \<not> upd2 \<and> buf_data (bufs1 0) = [0, 1] \<and> buf_data (bufs2 0) = [0, 1])"
  by code_simp




section \<open>Scheduling: proofs\<close>

lemma update_pending: "timer (fst s) \<noteq> None \<Longrightarrow> update s = s"
  by (cases s) (auto simp: update_def)

lemma update_idle:
  assumes "idle s"
  shows "pending (nextHandle (snd s)) (clock (snd s) + UPDATE_DELAY_MS) (update s)"
    and "ran (snd (update s)) = ran (snd s)" and "clock (snd (update s)) = clock (snd s)"
  using assms
  by (cases s; simp add: idle_def pending_def update_def setTimeout_def UPDATE_DELAY_MS_def)+

lemma tick_idle:
  assumes "idle s"
  shows "idle (tick s)" and "ran (snd (tick s)) = ran (snd s)"
  using assms by (cases s; simp add: idle_def tick_def fire_def)+

lemma tick_pending_early:
  assumes "pending tid due s" and "clock (snd s) + 1 < due"
  shows "pending tid due (tick s)" and "ran (snd (tick s)) = ran (snd s)"
    and "clock (snd (tick s)) = clock (snd s) + 1"
  using assms by (cases s; simp add: pending_def tick_def fire_def)+

lemma tick_pending_due:
  assumes "pending tid due s" and "clock (snd s) + 1 = due"
  shows "idle (tick s)" and "ran (snd (tick s)) = ran (snd s) @ [due]"
  using assms by (cases s; auto simp: pending_def idle_def tick_def fire_def)+

lemma ran_tick: "\<exists>xs. ran (snd (tick s)) = ran (snd s) @ xs"
  by (cases s) (simp add: tick_def fire_def Let_def)

lemma ran_advance: "\<exists>xs. ran (snd (advance n s)) = ran (snd s) @ xs"
proof (induction n arbitrary: s)
  case 0
  then show ?case by simp
next
  case (Suc n)
  from ran_tick[of s] obtain xs where "ran (snd (tick s)) = ran (snd s) @ xs" by blast
  moreover from Suc[of "tick s"] obtain ys where
    "ran (snd (advance n (tick s))) = ran (snd (tick s)) @ ys" by blast
  ultimately show ?case by simp
qed

lemma ran_update: "ran (snd (update s)) = ran (snd s)"
  by (cases s) (simp add: update_def setTimeout_def)

lemma ran_run: "\<exists>xs. ran (snd (run evs s)) = ran (snd s) @ xs"
proof (induction evs arbitrary: s)
  case Nil
  then show ?case by simp
next
  case (Cons e evs)
  show ?case
  proof (cases e)
    case Update
    with Cons[of "update s"] show ?thesis by (simp add: ran_update)
  next
    case (Wait n)
    from ran_advance[of n s] obtain xs where "ran (snd (advance n s)) = ran (snd s) @ xs" by blast
    moreover from Cons[of "advance n s"] obtain ys where
      "ran (snd (run evs (advance n s))) = ran (snd (advance n s)) @ ys" by blast
    ultimately show ?thesis using Wait by simp
  qed
qed

lemma advance_pending_early:
  assumes "pending tid due s" and "clock (snd s) + n < due"
  shows "pending tid due (advance n s) \<and> ran (snd (advance n s)) = ran (snd s) \<and>
         clock (snd (advance n s)) = clock (snd s) + n"
  using assms
proof (induction n arbitrary: s)
  case 0
  then show ?case by simp
next
  case (Suc n)
  from Suc.prems have e: "clock (snd s) + 1 < due" by simp
  note t = tick_pending_early[OF Suc.prems(1) e]
  from Suc.prems(2) t(3) have "clock (snd (tick s)) + n < due" by simp
  from Suc.IH[OF t(1) this] t(2,3) show ?case by simp
qed

lemma advance_pending_due:
  assumes "pending tid due s" and "due \<le> clock (snd s) + n"
  shows "\<exists>xs. ran (snd (advance n s)) = ran (snd s) @ due # xs"
  using assms
proof (induction n arbitrary: s)
  case 0
  then show ?case by (simp add: pending_def)
next
  case (Suc n)
  show ?case
  proof (cases "clock (snd s) + 1 = due")
    case True
    note t = tick_pending_due[OF Suc.prems(1) True]
    from ran_advance[of n "tick s"] obtain xs where
      "ran (snd (advance n (tick s))) = ran (snd (tick s)) @ xs" by blast
    with t(2) show ?thesis by simp
  next
    case False
    with Suc.prems(1) have e: "clock (snd s) + 1 < due" by (simp add: pending_def)
    note t = tick_pending_early[OF Suc.prems(1) e]
    from Suc.prems(2) t(3) have "due \<le> clock (snd (tick s)) + n" by simp
    from Suc.IH[OF t(1) this] t(2) show ?thesis by simp
  qed
qed

lemma run_pending:
  assumes "pending tid due s"
  shows "(clock (snd s) + waited evs < due \<longrightarrow>
            pending tid due (run evs s) \<and> ran (snd (run evs s)) = ran (snd s)) \<and>
         (due \<le> clock (snd s) + waited evs \<longrightarrow>
            (\<exists>xs. ran (snd (run evs s)) = ran (snd s) @ due # xs))"
  using assms
proof (induction evs arbitrary: s)
  case Nil
  then show ?case by (simp add: pending_def)
next
  case (Cons e evs)
  show ?case
  proof (cases e)
    case Update
    have "update s = s" using Cons.prems by (intro update_pending) (simp add: pending_def)
    with Cons.IH[OF Cons.prems] Update show ?thesis by simp
  next
    case (Wait n)
    show ?thesis
    proof (cases "clock (snd s) + n < due")
      case True
      note a = advance_pending_early[OF Cons.prems True]
      from a have p: "pending tid due (advance n s)" by blast
      from Cons.IH[OF p] a Wait show ?thesis by (simp add: add.assoc)
    next
      case False
      then have "due \<le> clock (snd s) + n" by simp
      from advance_pending_due[OF Cons.prems this] obtain xs where
        x: "ran (snd (advance n s)) = ran (snd s) @ due # xs" by blast
      from ran_run[of evs "advance n s"] obtain ys where
        "ran (snd (run evs (advance n s))) = ran (snd (advance n s)) @ ys" by blast
      with x False Wait show ?thesis by simp
    qed
  qed
qed

lemma oneAtMost_update: "oneAtMost s \<Longrightarrow> oneAtMost (update s)"
  unfolding oneAtMost_def
proof (elim disjE exE)
  assume "idle s"
  from update_idle(1)[OF this] show "idle (update s) \<or> (\<exists>tid due. pending tid due (update s))"
    by blast
next
  fix tid due assume p: "pending tid due s"
  then have "update s = s" by (intro update_pending) (simp add: pending_def)
  with p show "idle (update s) \<or> (\<exists>tid due. pending tid due (update s))" by auto
qed

lemma oneAtMost_tick: "oneAtMost s \<Longrightarrow> oneAtMost (tick s)"
  unfolding oneAtMost_def
proof (elim disjE exE)
  assume "idle s"
  from tick_idle(1)[OF this] show "idle (tick s) \<or> (\<exists>tid due. pending tid due (tick s))"
    by blast
next
  fix tid due assume p: "pending tid due s"
  then have "clock (snd s) + 1 < due \<or> clock (snd s) + 1 = due"
    by (auto simp: pending_def)
  with tick_pending_early(1)[OF p] tick_pending_due(1)[OF p]
  show "idle (tick s) \<or> (\<exists>tid due. pending tid due (tick s))" by blast
qed

lemma oneAtMost_advance: "oneAtMost s \<Longrightarrow> oneAtMost (advance n s)"
  by (induction n arbitrary: s) (simp_all add: oneAtMost_tick)

lemma oneAtMost_run: "oneAtMost s \<Longrightarrow> oneAtMost (run evs s)"
proof (induction evs arbitrary: s)
  case Nil
  then show ?case by simp
next
  case (Cons e evs)
  then show ?case by (cases e) (simp_all add: oneAtMost_update oneAtMost_advance)
qed

lemma oneAtMost_queue: "oneAtMost s \<Longrightarrow> length (queue (snd s)) \<le> 1"
  by (auto simp: oneAtMost_def idle_def pending_def)

text \<open>
  C7, as the code has it. From a handler with nothing scheduled, after a call of
  \<open>update\<close> and any further events: at most one timeout is pending; a call of \<open>update\<close>
  on a handler whose timer is set changes nothing; while less than 150 ms have passed
  since the first call the one timeout is still the one that the first call set, due
  150 ms after the first call, and no pass has run; and once 150 ms have passed the
  next pass has run at exactly 150 ms after the first call, whatever calls came later.
\<close>

theorem update_schedules_once:
  assumes "idle s"
  shows "length (queue (snd (run (Update # evs) s))) \<le> 1 \<and>
         (timer (fst s') \<noteq> None \<longrightarrow> update s' = s') \<and>
         (waited evs < UPDATE_DELAY_MS \<longrightarrow>
            queue (snd (run (Update # evs) s))
              = [(nextHandle (snd s), clock (snd s) + UPDATE_DELAY_MS)] \<and>
            ran (snd (run (Update # evs) s)) = ran (snd s)) \<and>
         (UPDATE_DELAY_MS \<le> waited evs \<longrightarrow>
            (\<exists>xs. ran (snd (run (Update # evs) s))
               = ran (snd s) @ (clock (snd s) + UPDATE_DELAY_MS) # xs))"
proof -
  let ?tid = "nextHandle (snd s)" and ?due = "clock (snd s) + UPDATE_DELAY_MS"
  note u = update_idle[OF assms]
  have one: "oneAtMost (run (Update # evs) s)"
    using assms by (intro oneAtMost_run) (simp add: oneAtMost_def)
  note r = run_pending[OF u(1), of evs, unfolded u(2,3)]
  have early: "queue (snd (run (Update # evs) s)) = [(?tid, ?due)] \<and>
      ran (snd (run (Update # evs) s)) = ran (snd s)" if "waited evs < UPDATE_DELAY_MS"
    using r that by (simp add: pending_def)
  have late: "\<exists>xs. ran (snd (run (Update # evs) s)) = ran (snd s) @ ?due # xs"
    if "UPDATE_DELAY_MS \<le> waited evs"
    using r that by simp
  from oneAtMost_queue[OF one] update_pending[of s'] early late show ?thesis by blast
qed

theorem update_schedules_once_witness:
  "idle (newCollisionHandler, startTimers) \<and>
   queue (snd (run [Update, Wait 100, Update, Wait 49] (newCollisionHandler, startTimers)))
     = [(1, 150)] \<and>
   ran (snd (run [Update, Wait 100, Update, Wait 49] (newCollisionHandler, startTimers))) = [] \<and>
   (\<exists>xs. ran (snd (run [Update, Wait 100, Update, Wait 50, Update, Wait 200]
                      (newCollisionHandler, startTimers))) = 150 # xs) \<and>
   update (run [Update, Wait 100] (newCollisionHandler, startTimers))
     = run [Update, Wait 100] (newCollisionHandler, startTimers)"
proof -
  have i: "idle (newCollisionHandler, startTimers)"
    by (simp add: idle_def newCollisionHandler_def startTimers_def)
  have w1: "waited [Wait 100, Update, Wait 49] < UPDATE_DELAY_MS"
    and w2: "UPDATE_DELAY_MS \<le> waited [Wait 100, Update, Wait 50, Update, Wait 200]"
    by (simp_all add: UPDATE_DELAY_MS_def)
  have s0: "nextHandle (snd (newCollisionHandler, startTimers)) = 1"
    "clock (snd (newCollisionHandler, startTimers)) + UPDATE_DELAY_MS = 150"
    "ran (snd (newCollisionHandler, startTimers)) = []"
    by (simp_all add: startTimers_def UPDATE_DELAY_MS_def)
  have t: "timer (fst (run [Update, Wait 100] (newCollisionHandler, startTimers))) \<noteq> None"
    by code_simp
  from update_schedules_once[OF i, of "[Wait 100, Update, Wait 49]"
      "run [Update, Wait 100] (newCollisionHandler, startTimers)"] w1 t
  have a: "queue (snd (run [Update, Wait 100, Update, Wait 49] (newCollisionHandler, startTimers)))
      = [(1, 150)]"
    "ran (snd (run [Update, Wait 100, Update, Wait 49] (newCollisionHandler, startTimers))) = []"
    "update (run [Update, Wait 100] (newCollisionHandler, startTimers))
     = run [Update, Wait 100] (newCollisionHandler, startTimers)"
    unfolding s0 by blast+
  from update_schedules_once[OF i, of "[Wait 100, Update, Wait 50, Update, Wait 200]"] w2
  have b: "\<exists>xs. ran (snd (run [Update, Wait 100, Update, Wait 50, Update, Wait 200]
                      (newCollisionHandler, startTimers))) = 150 # xs"
    unfolding s0 by simp
  from i a b show ?thesis by blast
qed

text \<open>
  Calls at 0 ms and at 100 ms: no pass has run at 149 ms, and the pass runs at 150 ms,
  which is 50 ms after the latest call.
\<close>

theorem update_schedules_once_counterexample:
  "ran (snd (run [Update, Wait 100, Update, Wait 49] (newCollisionHandler, startTimers))) = [] \<and>
   ran (snd (run [Update, Wait 100, Update, Wait 50] (newCollisionHandler, startTimers))) = [150] \<and>
   clock (snd (run [Update, Wait 100, Update, Wait 50] (newCollisionHandler, startTimers))) = 150"
  by code_simp

section \<open>Geometry decoding: proofs\<close>

lemma toInt32_nat:
  assumes "n < 2 ^ 31"
  shows "toInt32 (real n) = int n"
proof -
  have "js_trunc (real n) = int n" by (simp add: js_trunc_def)
  then have "toInt32 (real n) = sint (word_of_int (int n) :: 32 word)"
    by (simp only: toInt32_def)
  also have "\<dots> = signed_take_bit (LENGTH(32) - 1) (int n)"
    by (rule sint_sbintrunc')
  also have "\<dots> = int n"
    using assms by (intro signed_take_bit_int_eq_self) auto
  finally show ?thesis .
qed

lemma command_bits:
  assumes "ident < 8" "n < 2 ^ 28"
  shows "toInt32 (real (commandInteger ident n)) AND 7 = int ident"
    and "drop_bit 3 (toInt32 (real (commandInteger ident n))) = int n"
proof -
  have lt: "commandInteger ident n < 2 ^ 31" using assms by (simp add: commandInteger_def)
  have m: "(7::int) = mask 3" by (simp add: mask_eq_exp_minus_1)
  have "int (commandInteger ident n) AND mask 3 = int (commandInteger ident n) mod 2 ^ 3"
    by (simp only: take_bit_eq_mask[symmetric] take_bit_eq_mod)
  also have "\<dots> = int ident"
    using assms(1) by (simp add: commandInteger_def)
  finally show "toInt32 (real (commandInteger ident n)) AND 7 = int ident"
    by (simp only: toInt32_nat[OF lt] m)
  show "drop_bit 3 (toInt32 (real (commandInteger ident n))) = int n"
    unfolding toInt32_nat[OF lt]
    using assms(1) by (simp add: commandInteger_def drop_bit_eq_div)
qed

lemma unzigzag:
  "(if zigzag v mod 2 = 1 then - ((int (zigzag v) + 1) div 2) else int (zigzag v) div 2) = v"
proof (cases "0 \<le> v")
  case True
  then have "int (zigzag v) = 2 * v" by (simp add: zigzag_def)
  moreover from this have "zigzag v mod 2 = 0" by presburger
  ultimately show ?thesis by simp
next
  case False
  then have z: "int (zigzag v) = - 2 * v - 1" by (simp add: zigzag_def)
  then have "zigzag v mod 2 = 1" by presburger
  moreover have "- ((int (zigzag v) + 1) div 2) = v" unfolding z by simp
  ultimately show ?thesis by simp
qed

lemma readSVarint_zigzag:
  "inside p = zigzag v # vs \<Longrightarrow> readSVarint p = Inr (v, p\<lparr>inside := vs\<rparr>)"
  using unzigzag[of v] by (simp add: readSVarint_def readVarint_def)

lemma loop_step:
  "inside (pbf s) \<noteq> [] \<Longrightarrow> iteration s = Inr s' \<Longrightarrow> loop s = loop s'"
  by (simp add: loop.simps[of s])

lemma loop_error:
  "inside (pbf s) \<noteq> [] \<Longrightarrow> iteration s = Inl e \<Longrightarrow> loop s = Inl e"
  by (simp add: loop.simps[of s])

lemma loop_finish:
  "inside (pbf s) = [] \<Longrightarrow> \<exists>ls. loop s = Inr ls"
  by (simp add: loop.simps[of s])

lemma runCommand_point:
  assumes "cmd s = 1 \<or> cmd s = 2" and "cmd s = 2 \<longrightarrow> line s \<noteq> None"
    and "inside (pbf s) = zigzag dx # zigzag dy # vs"
  shows "\<exists>s'. runCommand s = Inr s' \<and> inside (pbf s') = vs \<and> len s' = len s \<and>
              cmd s' = cmd s \<and> line s' \<noteq> None \<and> line s' \<noteq> Some []"
proof -
  have r1: "readSVarint (pbf s) = Inr (dx, (pbf s)\<lparr>inside := zigzag dy # vs\<rparr>)"
    using assms(3) by (rule readSVarint_zigzag)
  have r2: "readSVarint ((pbf s)\<lparr>inside := zigzag dy # vs\<rparr>)
      = Inr (dy, (pbf s)\<lparr>inside := vs\<rparr>)"
    using readSVarint_zigzag[of "(pbf s)\<lparr>inside := zigzag dy # vs\<rparr>" dy vs] by simp
  show ?thesis
    using assms(1,2) by (auto simp: runCommand_def r1 r2 Let_def)
qed

lemma points:
  assumes "cmd s = 1 \<or> cmd s = 2" and "cmd s = 2 \<longrightarrow> line s \<noteq> None"
    and "len s = int (length ps)" and "inside (pbf s) = encodeParams ps @ vs"
    and "line s \<noteq> Some []"
  shows "\<exists>s'. loop s = loop s' \<and> inside (pbf s') = vs \<and> between s' \<and>
              (line s' = None \<longrightarrow> line s = None \<and> ps = [])"
  using assms
proof (induction ps arbitrary: s)
  case Nil
  then show ?case by (auto simp: encodeParams_def between_def)
next
  case (Cons p ps)
  obtain dx dy where p: "p = (dx, dy)" by (cases p)
  have ins: "inside (pbf s) = zigzag dx # zigzag dy # (encodeParams ps @ vs)"
    using Cons.prems(4) p by (simp add: encodeParams_def)
  have rc: "readCommand s = Inr s" using Cons.prems(3) by (simp add: readCommand_def)
  let ?s1 = "s\<lparr>len := len s - 1\<rparr>"
  from runCommand_point[of ?s1 dx dy "encodeParams ps @ vs"] Cons.prems(1,2) ins
  obtain s' where s': "runCommand ?s1 = Inr s'" "inside (pbf s') = encodeParams ps @ vs"
    "len s' = len s - 1" "cmd s' = cmd s" "line s' \<noteq> None" "line s' \<noteq> Some []"
    by auto
  have it: "iteration s = Inr s'" using rc s'(1) by (simp add: iteration_def)
  have st: "loop s = loop s'" using ins it by (intro loop_step) simp_all
  have "\<exists>s''. loop s' = loop s'' \<and> inside (pbf s'') = vs \<and> between s'' \<and>
              (line s'' = None \<longrightarrow> line s' = None \<and> ps = [])"
    using s' Cons.prems(1,3) by (intro Cons.IH) auto
  with st s'(5) show ?case by auto
qed

lemma command:
  assumes "between s" and "wellFormed (line s \<noteq> None) (c # cs)"
    and "inside (pbf s) = encode c @ vs"
  shows "\<exists>s'. loop s = loop s' \<and> inside (pbf s') = vs \<and> between s' \<and>
              wellFormed (line s' \<noteq> None) cs"
proof (cases c)
  case ClosePath
  have ins: "inside (pbf s) = commandInteger 7 1 # vs" using assms(3) ClosePath by simp
  have rc: "readCommand s = Inr (s\<lparr>pbf := (pbf s)\<lparr>inside := vs\<rparr>, cmd := 7, len := 1\<rparr>)"
    using assms(1) ins command_bits[of 7 1]
    by (simp add: readCommand_def between_def readVarint_def)
  let ?s1 = "s\<lparr>pbf := (pbf s)\<lparr>inside := vs\<rparr>, cmd := 7, len := 0\<rparr>"
  have "\<exists>s'. runCommand ?s1 = Inr s' \<and> inside (pbf s') = vs \<and> len s' = 0 \<and>
      line s' \<noteq> Some [] \<and> (line s' \<noteq> None) = (line s \<noteq> None)"
    using assms(1) by (auto simp: runCommand_def between_def split: option.splits list.splits)
  then obtain s' where s': "runCommand ?s1 = Inr s'" "inside (pbf s') = vs" "len s' = 0"
    "line s' \<noteq> Some []" "(line s' \<noteq> None) = (line s \<noteq> None)" by blast
  have "iteration s = Inr s'" using rc s'(1) by (simp add: iteration_def)
  with ins have "loop s = loop s'" by (intro loop_step) simp_all
  moreover have "wellFormed (line s' \<noteq> None) cs" using assms(2) ClosePath s'(5) by simp
  ultimately show ?thesis using s'(2,3,4) by (auto simp: between_def)
next
  case (MoveTo ps)
  with assms(2) obtain q qs where ps: "ps = q # qs" and n: "length ps < 2 ^ 28"
    and wf: "wellFormed True cs" by (cases ps) auto
  obtain dx dy where q: "q = (dx, dy)" by (cases q)
  have ins: "inside (pbf s) = commandInteger 1 (length ps) # zigzag dx # zigzag dy #
      (encodeParams qs @ vs)"
    using assms(3) MoveTo ps q by (simp add: encodeParams_def)
  let ?p1 = "(pbf s)\<lparr>inside := zigzag dx # zigzag dy # (encodeParams qs @ vs)\<rparr>"
  have rc: "readCommand s = Inr (s\<lparr>pbf := ?p1, cmd := 1, len := int (length ps)\<rparr>)"
    using assms(1) ins command_bits[of 1 "length ps"] n
    by (simp add: readCommand_def between_def readVarint_def)
  let ?s1 = "s\<lparr>pbf := ?p1, cmd := 1, len := int (length ps) - 1\<rparr>"
  from runCommand_point[of ?s1 dx dy "encodeParams qs @ vs"]
  obtain s' where s': "runCommand ?s1 = Inr s'" "inside (pbf s') = encodeParams qs @ vs"
    "len s' = int (length ps) - 1" "cmd s' = 1" "line s' \<noteq> None" "line s' \<noteq> Some []"
    by auto
  have "iteration s = Inr s'" using rc s'(1) by (simp add: iteration_def)
  with ins have st: "loop s = loop s'" by (intro loop_step) simp_all
  have "\<exists>s''. loop s' = loop s'' \<and> inside (pbf s'') = vs \<and> between s'' \<and>
              (line s'' = None \<longrightarrow> line s' = None \<and> qs = [])"
    using s' ps by (intro points) auto
  with st s'(5) wf show ?thesis by auto
next
  case (LineTo ps)
  with assms(2) obtain q qs where ps: "ps = q # qs" and n: "length ps < 2 ^ 28"
    and pen: "line s \<noteq> None" and wf: "wellFormed True cs" by (cases ps) auto
  obtain dx dy where q: "q = (dx, dy)" by (cases q)
  have ins: "inside (pbf s) = commandInteger 2 (length ps) # zigzag dx # zigzag dy #
      (encodeParams qs @ vs)"
    using assms(3) LineTo ps q by (simp add: encodeParams_def)
  let ?p1 = "(pbf s)\<lparr>inside := zigzag dx # zigzag dy # (encodeParams qs @ vs)\<rparr>"
  have rc: "readCommand s = Inr (s\<lparr>pbf := ?p1, cmd := 2, len := int (length ps)\<rparr>)"
    using assms(1) ins command_bits[of 2 "length ps"] n
    by (simp add: readCommand_def between_def readVarint_def)
  let ?s1 = "s\<lparr>pbf := ?p1, cmd := 2, len := int (length ps) - 1\<rparr>"
  from runCommand_point[of ?s1 dx dy "encodeParams qs @ vs"] pen
  obtain s' where s': "runCommand ?s1 = Inr s'" "inside (pbf s') = encodeParams qs @ vs"
    "len s' = int (length ps) - 1" "cmd s' = 2" "line s' \<noteq> None" "line s' \<noteq> Some []"
    by auto
  have "iteration s = Inr s'" using rc s'(1) by (simp add: iteration_def)
  with ins have st: "loop s = loop s'" by (intro loop_step) simp_all
  have "\<exists>s''. loop s' = loop s'' \<and> inside (pbf s'') = vs \<and> between s'' \<and>
              (line s'' = None \<longrightarrow> line s' = None \<and> qs = [])"
    using s' ps by (intro points) auto
  with st s'(5) wf show ?thesis by auto
qed

lemma commands:
  assumes "between s" and "wellFormed (line s \<noteq> None) cs"
    and "inside (pbf s) = encodeAll cs @ vs"
  shows "\<exists>s'. loop s = loop s' \<and> inside (pbf s') = vs \<and> between s'"
  using assms
proof (induction cs arbitrary: s)
  case Nil
  then show ?case by (auto simp: encodeAll_def)
next
  case (Cons c cs)
  have "inside (pbf s) = encode c @ (encodeAll cs @ vs)"
    using Cons.prems(3) by (simp add: encodeAll_def)
  from command[OF Cons.prems(1,2) this] obtain s1 where
    s1: "loop s = loop s1" "inside (pbf s1) = encodeAll cs @ vs" "between s1"
    "wellFormed (line s1 \<noteq> None) cs" by blast
  from Cons.IH[OF s1(3,4,2)] s1(1) show ?case by auto
qed

text \<open>
  C10, as the code has it. A geometry that encodes well formed commands decodes
  without an error; and when such commands are followed by a command integer whose
  command id is not 1, 2 or 7, the decoding raises the error for the unknown command,
  whatever follows.
\<close>

theorem unknown_command_fatal:
  assumes "wellFormed False cs"
  shows "(\<exists>ls. loadGeometry (encodeAll cs) following = Inr ls) \<and>
         (toInt32 (real c) AND 7 \<notin> {1, 2, 7} \<longrightarrow>
            loadGeometry (encodeAll cs @ c # remaining) following
              = Inl (UnknownCommand (toInt32 (real c) AND 7)))"
proof -
  let ?s0 = "\<lambda>vs. \<lparr>pbf = \<lparr>inside = vs, after = following\<rparr>, cmd = 1, len = 0,
           x_pos = 0, y_pos = 0, lines = [], line = None\<rparr>"
  have b0: "between (?s0 vs)" for vs by (simp add: between_def)
  have w0: "wellFormed (line (?s0 vs) \<noteq> None) cs" for vs using assms by simp
  have ok: "\<exists>ls. loadGeometry (encodeAll cs) following = Inr ls"
  proof -
    have "inside (pbf (?s0 (encodeAll cs))) = encodeAll cs @ []" by simp
    from commands[OF b0 w0 this] obtain s' where
      "loop (?s0 (encodeAll cs)) = loop s'" "inside (pbf s') = []" by blast
    with loop_finish[of s'] show ?thesis by (simp add: loadGeometry_def)
  qed
  have bad: "loadGeometry (encodeAll cs @ c # remaining) following
      = Inl (UnknownCommand (toInt32 (real c) AND 7))"
    if u: "toInt32 (real c) AND 7 \<notin> {1, 2, 7}"
  proof -
    have "inside (pbf (?s0 (encodeAll cs @ c # remaining))) = encodeAll cs @ (c # remaining)" by simp
    from commands[OF b0 w0 this] obtain s' where
      s': "loop (?s0 (encodeAll cs @ c # remaining)) = loop s'" "inside (pbf s') = c # remaining"
      "between s'" by blast
    have "iteration s' = Inl (UnknownCommand (toInt32 (real c) AND 7))"
      using s'(2,3) u
      by (simp add: iteration_def readCommand_def readVarint_def between_def runCommand_def)
    with s'(2) have "loop s' = Inl (UnknownCommand (toInt32 (real c) AND 7))"
      by (intro loop_error) simp_all
    with s'(1) show ?thesis by (simp add: loadGeometry_def)
  qed
  from ok bad show ?thesis by blast
qed

theorem unknown_command_fatal_witness:
  "wellFormed False ring \<and>
   encodeAll ring = [9, 4, 4, 18, 6, 0, 0, 6, 15] \<and>
   (\<exists>ls. loadGeometry (encodeAll ring) [] = Inr ls) \<and>
   loadGeometry (encodeAll ring @ [3]) [] = Inl (UnknownCommand 3)"
proof -
  have w: "wellFormed False ring" by (simp add: ring_def)
  have e: "encodeAll ring = [9, 4, 4, 18, 6, 0, 0, 6, 15]" by code_simp
  have c: "toInt32 (real (3::nat)) AND 7 = 3" by code_simp
  from unknown_command_fatal[OF w, of "[]" 3 "[]"] c w e show ?thesis by simp
qed

text \<open>
  A geometry with the single command lineTo (id 2, count 1): \<open>line\<close> is undefined when
  the point is pushed, a TypeError.
\<close>

theorem unknown_command_fatal_counterexample:
  "encodeAll [LineTo [(1, 1)]] = [10, 2, 2] \<and>
   toInt32 (real (10::nat)) AND 7 = 2 \<and>
   loadGeometry [10, 2, 2] [] = Inl NoLine"
  by code_simp

lemma ring_decoded: "loadGeometry (encodeAll ring) [] = Inr [[(2, 2), (5, 2), (5, 5), (2, 2)]]"
  by code_simp

section \<open>Extrusion: proofs\<close>

text \<open>
  C9, where the code departs from it. For the square with the hole (the square is
  clockwise, so the loop reads the coordinates mirrored): the walls are the three
  edges of the hole, then an edge from the hole's first vertex \<open>(30, 30)\<close> to the
  square's last vertex \<open>(10, 10)\<close>, which is an edge of no ring, then three edges of the
  square. The square's edge between \<open>(10, 10)\<close> and \<open>(110, 10)\<close> gets no wall.
\<close>

theorem extrude_walls_with_hole:
  "signedArea (vertices squareWithHole) 0 12 = Some 20000 \<and>
   signedArea (vertices squareWithHole) 15 24 = Some (- 1600) \<and>
   map_option (wallEdges 27)
     (addExtrude isInBox_closed 0 (vertices squareWithHole) [squareWithHole] [] [] None 512 5 None)
   = Some [(30, 30, 30, 70), (30, 70, 70, 30), (70, 30, 30, 30), (30, 30, 10, 10),
           (110, 10, 110, 110), (110, 110, 10, 110), (10, 110, 10, 10)]"
  by code_simp

text \<open>Without the hole the same square gets its four walls.\<close>

lemma extrude_walls_without_hole:
  "map_option (wallEdges 15)
     (addExtrude isInBox_closed 0 (vertices squareOnly) [squareOnly] [] [] None 512 5 None)
   = Some [(10, 10, 110, 10), (110, 10, 110, 110), (110, 110, 10, 110), (10, 110, 10, 10)]"
  by code_simp

text \<open>
  In a polygon without holes the loop visits the edges of the ring one by one, and
  each gets a wall exactly when the condition of the claim holds for it.
\<close>

lemma exteriorLoop_no_holes:
  assumes "nextHole s = None"
  shows "exteriorLoop isInBox flat stop0 tileSize extrude extrudeBase s =
         walls isInBox tileSize extrude extrudeBase
           (map (edgeAt flat stop0 (clockwise s)) (walk (pos s) stop0)) (out s)"
  using assms
proof (induction "pos s" stop0 arbitrary: s rule: walk.induct)
  case (1 stop0)
  show ?case
  proof (cases "pos s < stop0")
    case False
    then show ?thesis
      by (simp add: exteriorLoop.simps[of _ _ _ _ _ _ s] walk.simps[of "pos s"])
  next
    case True
    show ?thesis
    proof (cases "edgeAt flat stop0 (clockwise s) (pos s)")
      case None
      with True show ?thesis
        by (simp add: exteriorLoop.simps[of _ _ _ _ _ _ s] walk.simps[of "pos s"] exteriorStep_def)
    next
      case (Some e)
      obtain x1 y1 x2 y2 where e: "e = (x1, y1, x2, y2)" by (cases e)
      let ?o = "if emits isInBox tileSize (x1, y1, x2, y2)
        then addWall x1 y1 x2 y2 (round x1 - round x2) (round y1 - round y2) extrude extrudeBase (out s)
        else out s"
      let ?s' = "s\<lparr>pos := pos s + 3, out := ?o\<rparr>"
      have st: "exteriorStep isInBox flat stop0 tileSize extrude extrudeBase s = Some ?s'"
        using Some e "1.prems" by (simp add: exteriorStep_def Let_def emits_def)
      have "exteriorLoop isInBox flat stop0 tileSize extrude extrudeBase ?s' =
         walls isInBox tileSize extrude extrudeBase
           (map (edgeAt flat stop0 (clockwise ?s')) (walk (pos ?s') stop0)) (out ?s')"
        using True "1.prems" by (intro "1.hyps") simp_all
      then show ?thesis
        using True Some e st
        by (simp add: exteriorLoop.simps[of _ _ _ _ _ _ s] walk.simps[of "pos s"])
    qed
  qed
qed

lemma addExterior_no_holes:
  assumes "holes flat = []"
  shows "addExterior isInBox flat tileSize extrude extrudeBase0 out0 =
         walls isInBox tileSize extrude (case extrudeBase0 of None \<Rightarrow> 0 | Some b \<Rightarrow> b)
           (map (edgeAt flat (fp_stop flat - 3)
                   (case signedArea (vertex out0) (fp_start flat) (fp_stop flat - 3) of
                      None \<Rightarrow> False | Some a \<Rightarrow> a \<ge> 0))
                (walk (fp_start flat) (fp_stop flat - 3))) out0"
  using assms
  by (simp add: addExterior_def Let_def holeAt_def ringEnd_def exteriorLoop_no_holes)

text \<open>No wall at all unless the height exceeds the minimum; and the size of one wall.\<close>

lemma addExtrude_flat:
  "extrude \<le> MIN_VISIBLE_HEIGHT \<Longrightarrow>
   addExtrude isInBox v vertex1 flatPolygon normals0 vIndex0 strokeIndex0 tileSize extrude extrudeBase
     = Some \<lparr>vertex = vertex1, normals = fakeNormals v (length vertex1) normals0,
             vIndex = vIndex0, strokeIndex = strokeIndex0\<rparr>"
  by (simp add: addExtrude_def)

lemma addWall_sizes:
  "length (vertex (addWall x1 y1 x2 y2 dx dy extrude extrudeBase e)) = length (vertex e) + 12"
  "length (vIndex (addWall x1 y1 x2 y2 dx dy extrude extrudeBase e)) = length (vIndex e) + 6"
  "length (normals (addWall x1 y1 x2 y2 dx dy extrude extrudeBase e)) = length (normals e) + 8"
  by (simp_all add: addWall_def Let_def)

end
